theory Spec2Isabelle
  imports Main "HOL-Library.Sublist" "HOL-Library.FSet" "HOL-Library.AList"
begin

section \<open>Python strings\<close>

text \<open>
  A Python \<open>str\<close> is modelled as a \<open>string\<close>, one \<open>char\<close> for each code point
  below 256. The functions of this section are the \<open>str\<close> methods that
  \<open>website_cloner.py\<close> and \<open>urllib.parse\<close> call.
\<close>

text \<open>\<open>sub in s\<close>\<close>

fun str_in :: "string \<Rightarrow> string \<Rightarrow> bool" where
  "str_in sub [] = (sub = [])"
| "str_in sub (c # cs) = (prefix sub (c # cs) \<or> str_in sub cs)"

text \<open>\<open>s.find(c)\<close> for a single character: the first index, \<open>None\<close> for -1.\<close>

fun find_char :: "char \<Rightarrow> string \<Rightarrow> nat option" where
  "find_char c [] = None"
| "find_char c (x # xs) =
     (if x = c then Some 0 else map_option Suc (find_char c xs))"

text \<open>\<open>s.find(c, start)\<close>\<close>

definition find_char_from :: "char \<Rightarrow> nat \<Rightarrow> string \<Rightarrow> nat option" where
  "find_char_from c start s = map_option (\<lambda>i. i + start) (find_char c (drop start s))"

text \<open>\<open>s.rfind(c)\<close>\<close>

definition rfind_char :: "char \<Rightarrow> string \<Rightarrow> nat option" where
  "rfind_char c s =
     map_option (\<lambda>i. length s - 1 - i) (find_char c (rev s))"

text \<open>\<open>s.split(c, 1)\<close> when \<open>c in s\<close>: the text before and after the first \<open>c\<close>.\<close>

definition split_first :: "char \<Rightarrow> string \<Rightarrow> string \<times> string" where
  "split_first c s = (takeWhile (\<lambda>x. x \<noteq> c) s, drop 1 (dropWhile (\<lambda>x. x \<noteq> c) s))"

text \<open>\<open>s.split(c)\<close>: always at least one piece.\<close>

fun split_on :: "char \<Rightarrow> string \<Rightarrow> string list" where
  "split_on c [] = [[]]"
| "split_on c (x # xs) =
     (if x = c then [] # split_on c xs
      else (case split_on c xs of
              [] \<Rightarrow> [[x]]
            | p # ps \<Rightarrow> (x # p) # ps))"

text \<open>\<open>sep.join(parts)\<close>\<close>

fun join :: "string \<Rightarrow> string list \<Rightarrow> string" where
  "join sep [] = []"
| "join sep [p] = p"
| "join sep (p # q # ps) = p @ sep @ join sep (q # ps)"

text \<open>\<open>s.lstrip(chars)\<close>, \<open>s.rstrip(chars)\<close>, \<open>s.strip(chars)\<close>\<close>

definition lstrip :: "string \<Rightarrow> string \<Rightarrow> string" where
  "lstrip chars s = dropWhile (\<lambda>c. c \<in> set chars) s"

definition rstrip :: "string \<Rightarrow> string \<Rightarrow> string" where
  "rstrip chars s = rev (dropWhile (\<lambda>c. c \<in> set chars) (rev s))"

definition strip :: "string \<Rightarrow> string \<Rightarrow> string" where
  "strip chars s = rstrip chars (lstrip chars s)"

text \<open>
  \<open>s.replace(old, new)\<close>: the occurrences of \<open>old\<close> are replaced from left to
  right without overlap; an empty \<open>old\<close> matches before every character and at the end.
\<close>

function str_replace :: "string \<Rightarrow> string \<Rightarrow> string \<Rightarrow> string" where
  "str_replace old new s =
     (if old = [] then new @ concat (map (\<lambda>c. c # new) s)
      else if s = [] then []
      else if prefix old s then new @ str_replace old new (drop (length old) s)
      else hd s # str_replace old new (tl s))"
  by pat_completeness auto
termination
  by (relation "measure (\<lambda>(old, new, s). length s)") auto

declare str_replace.simps [simp del]

text \<open>
  \<open>s.lower()\<close>: the upper-case letters below 256 are \<open>A\<close> to \<open>Z\<close> (65 to 90) and
  192 to 222 without 215; the lower-case letter is 32 higher, which sets bit 5.
\<close>

definition is_upper :: "char \<Rightarrow> bool" where
  "is_upper c = (let n = (of_char c :: nat) in
     (65 \<le> n \<and> n \<le> 90) \<or> (192 \<le> n \<and> n \<le> 222 \<and> n \<noteq> 215))"

definition lower_char :: "char \<Rightarrow> char" where
  "lower_char c =
     (if is_upper c
      then (case c of Char b0 b1 b2 b3 b4 b5 b6 b7 \<Rightarrow> Char b0 b1 b2 b3 b4 True b6 b7)
      else c)"

definition lower :: "string \<Rightarrow> string" where
  "lower s = map lower_char s"

text \<open>\<open>c.isascii() and c.isalpha()\<close>\<close>

definition is_ascii_alpha :: "char \<Rightarrow> bool" where
  "is_ascii_alpha c = (let n = (of_char c :: nat) in
     (65 \<le> n \<and> n \<le> 90) \<or> (97 \<le> n \<and> n \<le> 122))"

text \<open>\<open>any(ext in s for ext in exts)\<close>\<close>

definition any_in :: "string list \<Rightarrow> string \<Rightarrow> bool" where
  "any_in exts s = list_ex (\<lambda>ext. str_in ext s) exts"

section \<open>The standard library's \<open>urllib.parse\<close>\<close>

text \<open>
  \<open>urlparse\<close>, \<open>urlunparse\<close> and \<open>urljoin\<close> as \<open>Lib/urllib/parse.py\<close> of CPython 3.11
  defines them for \<open>str\<close> arguments with \<open>allow_fragments=True\<close>. Two checks of
  \<open>urlsplit\<close> call other libraries. \<open>_check_bracketed_host\<close> validates an IPv6 or
  IPvFuture literal with the \<open>ipaddress\<close> module: it is the parameter \<open>ok\<close>, true of
  the bracketed hosts it accepts. \<open>_checknetloc\<close> raises only when NFKC normalisation
  turns a character into one of \<open>/?#@:\<close>, which no code point below 256 does, so it
  never raises on the strings of this model.
\<close>

datatype error = ValueError | OSError | RequestException

definition uses_relative :: "string list" where
  "uses_relative = ['''', ''ftp'', ''http'', ''gopher'', ''nntp'', ''imap'',
     ''wais'', ''file'', ''https'', ''shttp'', ''mms'',
     ''prospero'', ''rtsp'', ''rtsps'', ''rtspu'', ''sftp'',
     ''svn'', ''svn+ssh'', ''ws'', ''wss'']"

definition uses_netloc :: "string list" where
  "uses_netloc = ['''', ''ftp'', ''http'', ''gopher'', ''nntp'', ''telnet'',
     ''imap'', ''wais'', ''file'', ''mms'', ''https'', ''shttp'',
     ''snews'', ''prospero'', ''rtsp'', ''rtsps'', ''rtspu'', ''rsync'',
     ''svn'', ''svn+ssh'', ''sftp'', ''nfs'', ''git'', ''git+ssh'',
     ''ws'', ''wss'']"

definition uses_params :: "string list" where
  "uses_params = ['''', ''ftp'', ''hdl'', ''prospero'', ''http'', ''imap'',
     ''https'', ''shttp'', ''rtsp'', ''rtsps'', ''rtspu'', ''sip'',
     ''sips'', ''mms'', ''sftp'', ''tel'']"

definition scheme_chars :: string where
  "scheme_chars =
     ''abcdefghijklmnopqrstuvwxyzABCDEFGHIJKLMNOPQRSTUVWXYZ0123456789+-.''"

text \<open>\<open>_WHATWG_C0_CONTROL_OR_SPACE\<close>: the code points 0 to 32.\<close>

definition is_c0_or_space :: "char \<Rightarrow> bool" where
  "is_c0_or_space c = ((of_char c :: nat) \<le> 32)"

text \<open>\<open>_UNSAFE_URL_BYTES_TO_REMOVE\<close>: tab, carriage return, newline.\<close>

definition unsafe_url_bytes :: "char list" where
  "unsafe_url_bytes = [CHR 0x09, CHR 0x0D, CHR 0x0A]"

definition remove_unsafe :: "string \<Rightarrow> string" where
  "remove_unsafe s = fold (\<lambda>b u. str_replace [b] [] u) unsafe_url_bytes s"

record split_result =
  s_scheme :: string
  s_netloc :: string
  s_path :: string
  s_query :: string
  s_fragment :: string

record parse_result =
  scheme :: string
  netloc :: string
  path :: string
  params :: string
  query :: string
  fragment :: string

text \<open>\<open>_splitnetloc(url, 2)\<close>: the text from index 2 to the first of \<open>/?#\<close>, and the rest.\<close>

definition splitnetloc :: "string \<Rightarrow> string \<times> string" where
  "splitnetloc url =
     (takeWhile (\<lambda>c. c \<notin> set ''/?#'') (drop 2 url),
      dropWhile (\<lambda>c. c \<notin> set ''/?#'') (drop 2 url))"

text \<open>\<open>netloc.partition('[')[2].partition(']')[0]\<close>\<close>

definition bracketed_host :: "string \<Rightarrow> string" where
  "bracketed_host nl =
     takeWhile (\<lambda>c. c \<noteq> CHR '']'')
       (drop 1 (dropWhile (\<lambda>c. c \<noteq> CHR ''['') nl))"

text \<open>
  \<open>urlsplit(url, scheme)\<close>. The scheme found in \<open>url\<close> replaces the default
  \<open>scheme\<close>; a network location follows \<open>//\<close>; the fragment is cut at the first
  \<open>#\<close> and then the query at the first \<open>?\<close>.
\<close>

definition urlsplit :: "(string \<Rightarrow> bool) \<Rightarrow> string \<Rightarrow> string \<Rightarrow> error + split_result" where
  "urlsplit ok url0 scheme0 =
     (let url1 = remove_unsafe (dropWhile is_c0_or_space url0);
          scheme1 = remove_unsafe
            (rev (dropWhile is_c0_or_space (rev (dropWhile is_c0_or_space scheme0))));
          (scheme2, url2) =
            (case find_char CHR '':'' url1 of
               None \<Rightarrow> (scheme1, url1)
             | Some i \<Rightarrow>
                 if 0 < i \<and> is_ascii_alpha (hd url1)
                    \<and> (\<forall>c \<in> set (take i url1). c \<in> set scheme_chars)
                 then (lower (take i url1), drop (i + 1) url1)
                 else (scheme1, url1));
          (netloc3, url3) =
            (if take 2 url2 = ''//'' then splitnetloc url2 else ([], url2))
      in if take 2 url2 = ''//''
            \<and> ((CHR ''['' \<in> set netloc3 \<and> CHR '']'' \<notin> set netloc3)
               \<or> (CHR '']'' \<in> set netloc3 \<and> CHR ''['' \<notin> set netloc3))
         then Inl ValueError
         else if take 2 url2 = ''//''
            \<and> CHR ''['' \<in> set netloc3 \<and> CHR '']'' \<in> set netloc3
            \<and> \<not> ok (bracketed_host netloc3)
         then Inl ValueError
         else
           let (url4, fragment4) =
                 (if CHR ''#'' \<in> set url3 then split_first CHR ''#'' url3 else (url3, []));
               (url5, query5) =
                 (if CHR ''?'' \<in> set url4 then split_first CHR ''?'' url4 else (url4, []))
           in Inr \<lparr>s_scheme = scheme2, s_netloc = netloc3, s_path = url5,
                    s_query = query5, s_fragment = fragment4\<rparr>)"

text \<open>\<open>_splitparams(url)\<close>; \<open>url[:-1]\<close> is the text without its last character.\<close>

definition splitparams :: "string \<Rightarrow> string \<times> string" where
  "splitparams url =
     (if CHR ''/'' \<in> set url
      then (case find_char_from CHR '';'' (the (rfind_char CHR ''/'' url)) url of
              None \<Rightarrow> (url, [])
            | Some i \<Rightarrow> (take i url, drop (i + 1) url))
      else (case find_char CHR '';'' url of
              None \<Rightarrow> (butlast url, url)
            | Some i \<Rightarrow> (take i url, drop (i + 1) url)))"

definition urlparse :: "(string \<Rightarrow> bool) \<Rightarrow> string \<Rightarrow> string \<Rightarrow> error + parse_result" where
  "urlparse ok url scheme0 =
     (case urlsplit ok url scheme0 of
        Inl e \<Rightarrow> Inl e
      | Inr r \<Rightarrow>
          let (url', params') =
                (if s_scheme r \<in> set uses_params \<and> CHR '';'' \<in> set (s_path r)
                 then splitparams (s_path r) else (s_path r, []))
          in Inr \<lparr>scheme = s_scheme r, netloc = s_netloc r, path = url',
                   params = params', query = s_query r, fragment = s_fragment r\<rparr>)"

definition urlunsplit :: "split_result \<Rightarrow> string" where
  "urlunsplit r =
     (let url1 =
            (if s_netloc r \<noteq> [] \<or> (s_scheme r \<noteq> [] \<and> s_scheme r \<in> set uses_netloc)
                \<or> take 2 (s_path r) = ''//''
             then ''//'' @ s_netloc r
                  @ (if s_path r \<noteq> [] \<and> take 1 (s_path r) \<noteq> ''/''
                     then ''/'' @ s_path r else s_path r)
             else s_path r);
          url2 = (if s_scheme r \<noteq> [] then s_scheme r @ '':'' @ url1 else url1);
          url3 = (if s_query r \<noteq> [] then url2 @ ''?'' @ s_query r else url2)
      in if s_fragment r \<noteq> [] then url3 @ ''#'' @ s_fragment r else url3)"

definition urlunparse :: "parse_result \<Rightarrow> string" where
  "urlunparse p =
     urlunsplit \<lparr>s_scheme = scheme p, s_netloc = netloc p,
       s_path = (if params p \<noteq> [] then path p @ '';'' @ params p else path p),
       s_query = query p, s_fragment = fragment p\<rparr>"

text \<open>
  The path resolution of \<open>urljoin\<close>. \<open>segments[1:-1] = filter(None, segments[1:-1])\<close>
  drops the empty segments between the first and the last one.
\<close>

definition filter_middle :: "string list \<Rightarrow> string list" where
  "filter_middle segments =
     (case segments of
        [] \<Rightarrow> []
      | [x] \<Rightarrow> [x]
      | x # rest \<Rightarrow> x # filter (\<lambda>seg. seg \<noteq> []) (butlast rest) @ [last rest])"

text \<open>The loop over the segments: \<open>..\<close> pops (nothing from an empty list), \<open>.\<close> is skipped.\<close>

fun resolve_segments :: "string list \<Rightarrow> string list \<Rightarrow> string list" where
  "resolve_segments resolved [] = resolved"
| "resolve_segments resolved (seg # segs) =
     (if seg = ''..'' then resolve_segments (butlast resolved) segs
      else if seg = ''.'' then resolve_segments resolved segs
      else resolve_segments (resolved @ [seg]) segs)"

definition urljoin :: "(string \<Rightarrow> bool) \<Rightarrow> string \<Rightarrow> string \<Rightarrow> error + string" where
  "urljoin ok base url =
     (if base = [] then Inr url
      else if url = [] then Inr base
      else case urlparse ok base [] of
        Inl e \<Rightarrow> Inl e
      | Inr b \<Rightarrow>
        (case urlparse ok url (scheme b) of
           Inl e \<Rightarrow> Inl e
         | Inr u \<Rightarrow>
           if scheme u \<noteq> scheme b \<or> scheme u \<notin> set uses_relative then Inr url
           else if scheme u \<in> set uses_netloc \<and> netloc u \<noteq> [] then Inr (urlunparse u)
           else
             let netloc' = (if scheme u \<in> set uses_netloc then netloc b else netloc u)
             in if path u = [] \<and> params u = []
                then Inr (urlunparse (u\<lparr>netloc := netloc', path := path b, params := params b,
                       query := (if query u = [] then query b else query u)\<rparr>))
                else
                  let base_parts0 = split_on CHR ''/'' (path b);
                      base_parts = (if last base_parts0 \<noteq> [] then butlast base_parts0
                                    else base_parts0);
                      segments = (if take 1 (path u) = ''/'' then split_on CHR ''/'' (path u)
                                  else filter_middle (base_parts @ split_on CHR ''/'' (path u)));
                      resolved0 = resolve_segments [] segments;
                      resolved_path = (if last segments \<in> {''.'', ''..''} then resolved0 @ [[]]
                                       else resolved0);
                      joined = join ''/'' resolved_path
                  in Inr (urlunparse (u\<lparr>netloc := netloc',
                        path := (if joined = [] then ''/'' else joined)\<rparr>))))"


section \<open>The cloner's data\<close>

text \<open>
  The world outside the program. \<open>http_get n url\<close> is what the \<open>n\<close>-th call of
  \<open>requests.get\<close> (counting from 0) followed by \<open>raise_for_status\<close> gives for
  \<open>url\<close>: the response, or \<open>None\<close> when either raises. \<open>html_parser\<close> is
  \<open>BeautifulSoup(content, 'html.parser')\<close> and \<open>prettify\<close> its serialisation.
  \<open>can_mkdir\<close> and \<open>can_write\<close> tell whether creating a directory and writing a
  file succeed.
\<close>

record response =
  resp_content :: string
  resp_text :: string

text \<open>
  A tag of the parsed page: its name, its single-valued attributes in order, the
  tokens of its multi-valued \<open>rel\<close> attribute (\<open>None\<close> without one) and its
  \<open>.string\<close>. The soup is the list of its tags in document order.
\<close>

record element =
  tag_name :: string
  attrs :: "(string \<times> string) list"
  rel :: "string list option"
  tag_string :: "string option"

type_synonym soup = "element list"

record env =
  check_bracketed_host :: "string \<Rightarrow> bool"
  http_get :: "nat \<Rightarrow> string \<Rightarrow> response option"
  html_parser :: "string \<Rightarrow> soup"
  prettify :: "soup \<Rightarrow> string"
  can_mkdir :: "string \<Rightarrow> bool"
  can_write :: "string \<Rightarrow> bool"

text \<open>The document \<open>_save_summary\<close> dumps; the lists come from sets, in no fixed order.\<close>

record summary =
  sum_base_url :: string
  pages_scraped :: nat
  sum_visited_pages :: "string fset"
  images_downloaded :: nat
  image_urls :: "string fset"
  css_files_downloaded :: nat
  css_urls :: "string fset"
  js_files_downloaded :: nat
  js_urls :: "string fset"
  inline_styles_count :: nat

datatype file_content = Bytes string | Text string | Json summary

text \<open>
  The fields of \<open>WebsiteCloner\<close>, and with them the two effects of a run: \<open>files\<close>,
  the files written so far by path, and \<open>requests\<close>, the URLs passed to
  \<open>requests.get\<close> so far, in call order.
\<close>

record cloner =
  base_url :: string
  domain :: string
  output_dir :: string
  downloaded_images :: "string fset"
  downloaded_css :: "string fset"
  downloaded_js :: "string fset"
  visited_pages :: "string fset"
  all_css_rules :: "(string \<times> string list) list"
  inline_styles :: "string list"
  files :: "string \<rightharpoonup> file_content"
  requests :: "string list"

type_synonym 'a result = "(error + 'a) \<times> cloner"

text \<open>\<open>os.path.join\<close> on POSIX: an absolute component discards what came before it.\<close>

definition path_join :: "string \<Rightarrow> string \<Rightarrow> string" where
  "path_join a b =
     (if prefix ''/'' b then b
      else if a = [] \<or> suffix ''/'' a then a @ b
      else a @ ''/'' @ b)"

definition directories :: "string \<Rightarrow> string list" where
  "directories out =
     [out, path_join out ''images'', path_join out ''css'', path_join out ''js'',
      path_join out ''html'', path_join out ''fonts'', path_join out ''assets'']"

text \<open>\<open>WebsiteCloner.__init__\<close>\<close>

definition init :: "env \<Rightarrow> string \<Rightarrow> string \<Rightarrow> error + cloner" where
  "init env url out =
     (case urlparse (check_bracketed_host env) url [] of
        Inl e \<Rightarrow> Inl e
      | Inr parsed \<Rightarrow>
          if list_all (can_mkdir env) (directories out)
          then Inr \<lparr>base_url = rstrip ''/'' url, domain = netloc parsed, output_dir = out,
                 downloaded_images = {||}, downloaded_css = {||}, downloaded_js = {||},
                 visited_pages = {||}, all_css_rules = [], inline_styles = [],
                 files = Map.empty, requests = []\<rparr>
          else Inl OSError)"

section \<open>URL helpers\<close>

text \<open>\<open>_is_same_domain\<close>\<close>

definition is_same_domain :: "env \<Rightarrow> cloner \<Rightarrow> string \<Rightarrow> error + bool" where
  "is_same_domain env self url =
     (case urlparse (check_bracketed_host env) url [] of
        Inl e \<Rightarrow> Inl e
      | Inr parsed \<Rightarrow>
          Inr (netloc parsed = domain self \<or> netloc parsed = []
               \<or> netloc parsed = ''www.'' @ domain self
               \<or> netloc parsed = str_replace ''www.'' [] (domain self)))"

text \<open>\<open>_normalize_url\<close>; \<open>base or self.base_url\<close> takes the default for \<open>None\<close> and for \<open>''\<close>.\<close>

definition normalize_url :: "env \<Rightarrow> cloner \<Rightarrow> string \<Rightarrow> string option \<Rightarrow> error + string" where
  "normalize_url env self url base =
     (if url = [] \<or> prefix ''data:'' url \<or> prefix ''javascript:'' url then Inr []
      else
        let base' = (case base of
                       None \<Rightarrow> base_url self
                     | Some b \<Rightarrow> if b = [] then base_url self else b)
        in case urljoin (check_bracketed_host env) base' url of
             Inl e \<Rightarrow> Inl e
           | Inr absolute_url \<Rightarrow>
               (case urlparse (check_bracketed_host env) absolute_url [] of
                  Inl e \<Rightarrow> Inl e
                | Inr parsed \<Rightarrow> Inr (urlunparse (parsed\<lparr>fragment := []\<rparr>))))"

text \<open>\<open>_get_filename_from_url\<close>\<close>

definition get_filename_from_url :: "env \<Rightarrow> string \<Rightarrow> string \<Rightarrow> error + string" where
  "get_filename_from_url env url pre =
     (case urlparse (check_bracketed_host env) url [] of
        Inl e \<Rightarrow> Inl e
      | Inr parsed \<Rightarrow>
          let path0 = strip ''/'' (path parsed);
              path1 = (if path0 = [] \<or> suffix ''/'' path0 then ''index.html'' else path0);
              filename1 = str_replace [CHR 0x5C] ''_'' (str_replace ''/'' ''_'' path1);
              filename2 = (if CHR ''?'' \<in> set filename1
                           then hd (split_on CHR ''?'' filename1) else filename1);
              filename3 = (if CHR ''.'' \<in> set filename2 then filename2
                           else filename2 @ ''.html'')
          in Inr (pre @ filename3))"

section \<open>Downloads\<close>

text \<open>One call of \<open>requests.get\<close> with \<open>raise_for_status\<close>: the call is logged.\<close>

definition fetch :: "env \<Rightarrow> string \<Rightarrow> cloner \<Rightarrow> response option \<times> cloner" where
  "fetch env url st =
     (http_get env (length (requests st)) url, st\<lparr>requests := requests st @ [url]\<rparr>)"

text \<open>
  \<open>download_image\<close>. The membership test and its \<open>return\<close> stand before the \<open>try\<close>;
  inside it every exception ends in \<open>return ''\<close>.
\<close>

definition download_image :: "env \<Rightarrow> string \<Rightarrow> cloner \<Rightarrow> string result" where
  "download_image env img_url st =
     (if img_url |\<in>| downloaded_images st
      then (get_filename_from_url env img_url ''img_'', st)
      else case fetch env img_url st of
        (None, st1) \<Rightarrow> (Inr [], st1)
      | (Some response, st1) \<Rightarrow>
          (case get_filename_from_url env img_url ''img_'' of
             Inl e \<Rightarrow> (Inr [], st1)
           | Inr filename \<Rightarrow>
               let filepath = path_join (path_join (output_dir st1) ''images'') filename
               in if can_write env filepath
                  then (Inr filename,
                        st1\<lparr>files := (files st1)(filepath \<mapsto> Bytes (resp_content response)),
                            downloaded_images := finsert img_url (downloaded_images st1)\<rparr>)
                  else (Inr [], st1)))"

text \<open>\<open>_download_font\<close>: no set of downloaded fonts is kept.\<close>

definition download_font :: "env \<Rightarrow> string \<Rightarrow> cloner \<Rightarrow> string result" where
  "download_font env font_url st =
     (case fetch env font_url st of
        (None, st1) \<Rightarrow> (Inr [], st1)
      | (Some response, st1) \<Rightarrow>
          (case get_filename_from_url env font_url ''font_'' of
             Inl e \<Rightarrow> (Inr [], st1)
           | Inr filename \<Rightarrow>
               let filepath = path_join (path_join (output_dir st1) ''fonts'') filename
               in if can_write env filepath
                  then (Inr filename,
                        st1\<lparr>files := (files st1)(filepath \<mapsto> Bytes (resp_content response))\<rparr>)
                  else (Inr [], st1)))"

text \<open>\<open>download_js\<close>\<close>

definition download_js :: "env \<Rightarrow> string \<Rightarrow> cloner \<Rightarrow> string result" where
  "download_js env js_url st =
     (if js_url |\<in>| downloaded_js st
      then (get_filename_from_url env js_url ''script_'', st)
      else case fetch env js_url st of
        (None, st1) \<Rightarrow> (Inr [], st1)
      | (Some response, st1) \<Rightarrow>
          (case get_filename_from_url env js_url ''script_'' of
             Inl e \<Rightarrow> (Inr [], st1)
           | Inr filename \<Rightarrow>
               let filepath = path_join (path_join (output_dir st1) ''js'') filename
               in if can_write env filepath
                  then (Inr filename,
                        st1\<lparr>files := (files st1)(filepath \<mapsto> Text (resp_text response)),
                            downloaded_js := finsert js_url (downloaded_js st1)\<rparr>)
                  else (Inr [], st1)))"


section \<open>References inside CSS\<close>

text \<open>
  \<open>url_pattern = r'url\(["\']?([^"\'()]+)["\']?\)'\<close> tried at the start of \<open>s\<close>:
  \<open>url(\<close>, an optional quote, the longest non-empty run without quotes and
  parentheses, an optional quote, \<open>)\<close>. A shorter run or a quote left unread would put
  a character of the run or a quote where \<open>)\<close> must stand, so backtracking finds no
  other match. The result is \<open>group(0)\<close>, \<open>group(1)\<close> and the text behind the match.
\<close>

definition quote_chars :: "char list" where
  "quote_chars = [CHR 0x22, CHR 0x27]"

definition url_stop_chars :: "char list" where
  "url_stop_chars = [CHR 0x22, CHR 0x27, CHR ''('', CHR '')'']"

definition match_url_at :: "string \<Rightarrow> (string \<times> string \<times> string) option" where
  "match_url_at s =
     (if prefix ''url('' s then
        let r1 = drop 4 s;
            q1 = (if r1 \<noteq> [] \<and> hd r1 \<in> set quote_chars then 1 else 0);
            r2 = drop q1 r1;
            g1 = takeWhile (\<lambda>c. c \<notin> set url_stop_chars) r2;
            r3 = dropWhile (\<lambda>c. c \<notin> set url_stop_chars) r2;
            q2 = (if r3 \<noteq> [] \<and> hd r3 \<in> set quote_chars then 1 else 0);
            r4 = drop q2 r3
        in if g1 \<noteq> [] \<and> take 1 r4 = '')''
           then Some (take (4 + q1 + length g1 + q2 + 1) s, g1, drop 1 r4)
           else None
      else None)"

lemma match_url_at_shorter:
  assumes "match_url_at s = Some (g0, g1, rest)"
  shows "length rest < length s"
proof -
  define q1 :: nat where
    "q1 = (if drop 4 s \<noteq> [] \<and> hd (drop 4 s) \<in> set quote_chars then 1 else 0)"
  define r3 where "r3 = dropWhile (\<lambda>c. c \<notin> set url_stop_chars) (drop q1 (drop 4 s))"
  define q2 :: nat where "q2 = (if r3 \<noteq> [] \<and> hd r3 \<in> set quote_chars then 1 else 0)"
  from assms have p: "prefix ''url('' s"
    unfolding match_url_at_def by (simp split: if_splits)
  from assms have "rest = drop 1 (drop q2 r3)"
    unfolding match_url_at_def Let_def q1_def [symmetric] r3_def [symmetric] q2_def [symmetric]
    by (simp split: if_splits)
  moreover have "length r3 \<le> length (drop q1 (drop 4 s))"
    unfolding r3_def by (rule length_dropWhile_le)
  ultimately have "length rest \<le> length s - 4"
    by simp
  moreover have "4 \<le> length s"
    using p by (auto simp: prefix_def)
  ultimately show ?thesis by simp
qed

text \<open>
  \<open>re.sub\<close> scans from left to right: where the pattern matches it calls the
  replacement function and goes on behind the match, elsewhere it copies one
  character. The matches do not depend on the replacements, so the scan comes first.
\<close>

datatype css_token = Lit char | UrlMatch string string

function css_tokens :: "string \<Rightarrow> css_token list" where
  "css_tokens s =
     (if s = [] then []
      else case match_url_at s of
        None \<Rightarrow> Lit (hd s) # css_tokens (tl s)
      | Some (g0, g1, rest) \<Rightarrow> UrlMatch g0 g1 # css_tokens rest)"
  by pat_completeness auto
termination
  by (relation "measure length") (auto dest: match_url_at_shorter)

declare css_tokens.simps [simp del]

definition image_exts :: "string list" where
  "image_exts = [''.png'', ''.jpg'', ''.jpeg'', ''.gif'', ''.svg'', ''.webp'', ''.ico'']"

definition font_exts :: "string list" where
  "font_exts = [''.woff'', ''.woff2'', ''.ttf'', ''.eot'', ''.otf'']"

text \<open>\<open>replace_url\<close>, the replacement function inside \<open>_process_css_urls\<close>.\<close>

definition replace_url :: "env \<Rightarrow> string \<Rightarrow> string \<Rightarrow> string \<Rightarrow> cloner \<Rightarrow> string result" where
  "replace_url env css_url g0 url st =
     (if prefix ''data:'' url \<or> prefix ''../images/'' url then (Inr g0, st)
      else case normalize_url env st url (Some css_url) of
        Inl e \<Rightarrow> (Inl e, st)
      | Inr absolute_url \<Rightarrow>
          if absolute_url = [] then (Inr g0, st)
          else if any_in image_exts (lower absolute_url) then
            (case download_image env absolute_url st of
               (Inl e, st1) \<Rightarrow> (Inl e, st1)
             | (Inr local_filename, st1) \<Rightarrow>
                 if local_filename \<noteq> []
                 then (Inr (''url(../images/'' @ local_filename @ '')''), st1)
                 else (Inr g0, st1))
          else if any_in font_exts (lower absolute_url) then
            (case download_font env absolute_url st of
               (Inl e, st1) \<Rightarrow> (Inl e, st1)
             | (Inr local_filename, st1) \<Rightarrow>
                 if local_filename \<noteq> []
                 then (Inr (''url(../fonts/'' @ local_filename @ '')''), st1)
                 else (Inr g0, st1))
          else (Inr g0, st))"

fun sub_tokens :: "env \<Rightarrow> string \<Rightarrow> css_token list \<Rightarrow> cloner \<Rightarrow> string result" where
  "sub_tokens env css_url [] st = (Inr [], st)"
| "sub_tokens env css_url (Lit c # ts) st =
     (case sub_tokens env css_url ts st of
        (Inl e, st1) \<Rightarrow> (Inl e, st1)
      | (Inr out, st1) \<Rightarrow> (Inr (c # out), st1))"
| "sub_tokens env css_url (UrlMatch g0 g1 # ts) st =
     (case replace_url env css_url g0 g1 st of
        (Inl e, st1) \<Rightarrow> (Inl e, st1)
      | (Inr repl, st1) \<Rightarrow>
          (case sub_tokens env css_url ts st1 of
             (Inl e, st2) \<Rightarrow> (Inl e, st2)
           | (Inr out, st2) \<Rightarrow> (Inr (repl @ out), st2)))"

text \<open>\<open>_process_css_urls\<close>\<close>

definition process_css_urls :: "env \<Rightarrow> string \<Rightarrow> string \<Rightarrow> cloner \<Rightarrow> string result" where
  "process_css_urls env css_content css_url st =
     sub_tokens env css_url (css_tokens css_content) st"

text \<open>\<open>download_css\<close>\<close>

definition download_css :: "env \<Rightarrow> string \<Rightarrow> cloner \<Rightarrow> string result" where
  "download_css env css_url st =
     (if css_url |\<in>| downloaded_css st
      then (get_filename_from_url env css_url ''style_'', st)
      else case fetch env css_url st of
        (None, st1) \<Rightarrow> (Inr [], st1)
      | (Some response, st1) \<Rightarrow>
          (case get_filename_from_url env css_url ''style_'' of
             Inl e \<Rightarrow> (Inr [], st1)
           | Inr filename \<Rightarrow>
               let filepath = path_join (path_join (output_dir st1) ''css'') filename
               in case process_css_urls env (resp_text response) css_url st1 of
                    (Inl e, st2) \<Rightarrow> (Inr [], st2)
                  | (Inr css_content, st2) \<Rightarrow>
                      if can_write env filepath
                      then (Inr filename,
                            st2\<lparr>files := (files st2)(filepath \<mapsto> Text css_content),
                                all_css_rules :=
                                  AList.update css_url [css_content] (all_css_rules st2),
                                downloaded_css := finsert css_url (downloaded_css st2)\<rparr>)
                      else (Inr [], st2)))"

section \<open>Scraping a page\<close>

text \<open>\<open>tag.get(key)\<close> and \<open>tag[key] = value\<close>\<close>

definition get_attr :: "string \<Rightarrow> element \<Rightarrow> string option" where
  "get_attr key e = map_of (attrs e) key"

definition set_attr :: "string \<Rightarrow> string \<Rightarrow> element \<Rightarrow> element" where
  "set_attr key v e = e\<lparr>attrs := AList.update key v (attrs e)\<rparr>"

text \<open>
  The filters of the \<open>find_all\<close> calls. A filter on \<open>rel\<close> is tried on every token
  and on the tokens joined by a space; a tag without \<open>rel\<close> does not match.
\<close>

definition is_style_tag :: "element \<Rightarrow> bool" where
  "is_style_tag e = (tag_name e = ''style'')"

definition is_stylesheet_link :: "element \<Rightarrow> bool" where
  "is_stylesheet_link e =
     (tag_name e = ''link'' \<and>
      (case rel e of
         None \<Rightarrow> False
       | Some ts \<Rightarrow> list_ex (\<lambda>t. t = ''stylesheet'') ts \<or> join '' '' ts = ''stylesheet''))"

definition is_img :: "element \<Rightarrow> bool" where
  "is_img e = (tag_name e = ''img'')"

definition has_style :: "element \<Rightarrow> bool" where
  "has_style e = (get_attr ''style'' e \<noteq> None)"

definition is_script_src :: "element \<Rightarrow> bool" where
  "is_script_src e = (tag_name e = ''script'' \<and> get_attr ''src'' e \<noteq> None)"

definition is_icon_link :: "element \<Rightarrow> bool" where
  "is_icon_link e =
     (tag_name e = ''link'' \<and>
      (case rel e of
         None \<Rightarrow> False
       | Some ts \<Rightarrow> list_ex (\<lambda>x. x \<noteq> [] \<and> str_in ''icon'' (lower x)) ts
                   \<or> (join '' '' ts \<noteq> [] \<and> str_in ''icon'' (lower (join '' '' ts)))))"

definition is_a_href :: "element \<Rightarrow> bool" where
  "is_a_href e = (tag_name e = ''a'' \<and> get_attr ''href'' e \<noteq> None)"

text \<open>
  \<open>for tag in soup.find_all(...): body\<close>, where the body may change the tag in place
  and the state, or raise. The tags that match are fixed before the loop, and no body
  changes what the filter reads of another tag.
\<close>

fun for_each ::
  "(element \<Rightarrow> bool) \<Rightarrow> (element \<Rightarrow> cloner \<Rightarrow> element result) \<Rightarrow> soup \<Rightarrow> cloner \<Rightarrow> soup result"
where
  "for_each sel body [] st = (Inr [], st)"
| "for_each sel body (e # es) st =
     (if sel e then
        (case body e st of
           (Inl err, st1) \<Rightarrow> (Inl err, st1)
         | (Inr e', st1) \<Rightarrow>
             (case for_each sel body es st1 of
                (Inl err, st2) \<Rightarrow> (Inl err, st2)
              | (Inr es', st2) \<Rightarrow> (Inr (e' # es'), st2)))
      else
        (case for_each sel body es st of
           (Inl err, st2) \<Rightarrow> (Inl err, st2)
         | (Inr es', st2) \<Rightarrow> (Inr (e # es'), st2)))"

text \<open>\<open>extract_inline_css\<close>\<close>

fun extract_inline_css :: "soup \<Rightarrow> cloner \<Rightarrow> cloner" where
  "extract_inline_css [] st = st"
| "extract_inline_css (e # es) st =
     (if is_style_tag e then
        (case tag_string e of
           None \<Rightarrow> extract_inline_css es st
         | Some text \<Rightarrow>
             if text \<noteq> []
             then extract_inline_css es (st\<lparr>inline_styles := inline_styles st @ [text]\<rparr>)
             else extract_inline_css es st)
      else extract_inline_css es st)"

text \<open>The bodies of the five loops of \<open>scrape_page\<close>, in its order.\<close>

definition css_link_body :: "env \<Rightarrow> string \<Rightarrow> element \<Rightarrow> cloner \<Rightarrow> element result" where
  "css_link_body env url link st =
     (case get_attr ''href'' link of
        None \<Rightarrow> (Inr link, st)
      | Some href \<Rightarrow>
          if href = [] then (Inr link, st)
          else case normalize_url env st href (Some url) of
            Inl e \<Rightarrow> (Inl e, st)
          | Inr css_url \<Rightarrow>
              if css_url = [] then (Inr link, st)
              else case download_css env css_url st of
                (Inl e, st1) \<Rightarrow> (Inl e, st1)
              | (Inr local_css, st1) \<Rightarrow>
                  if local_css \<noteq> []
                  then (Inr (set_attr ''href'' (''../css/'' @ local_css) link), st1)
                  else (Inr link, st1))"

text \<open>\<open>img.get('src') or img.get('data-src')\<close>\<close>

definition img_source :: "element \<Rightarrow> string option" where
  "img_source img =
     (case get_attr ''src'' img of
        None \<Rightarrow> get_attr ''data-src'' img
      | Some src \<Rightarrow> if src \<noteq> [] then Some src else get_attr ''data-src'' img)"

definition img_body :: "env \<Rightarrow> string \<Rightarrow> element \<Rightarrow> cloner \<Rightarrow> element result" where
  "img_body env url img st =
     (case img_source img of
        None \<Rightarrow> (Inr img, st)
      | Some src \<Rightarrow>
          if src = [] then (Inr img, st)
          else case normalize_url env st src (Some url) of
            Inl e \<Rightarrow> (Inl e, st)
          | Inr img_url \<Rightarrow>
              if img_url = [] \<or> prefix ''data:'' img_url then (Inr img, st)
              else case download_image env img_url st of
                (Inl e, st1) \<Rightarrow> (Inl e, st1)
              | (Inr local_img, st1) \<Rightarrow>
                  if local_img \<noteq> []
                  then (Inr (set_attr ''src'' (''../images/'' @ local_img) img), st1)
                  else (Inr img, st1))"

definition style_body :: "env \<Rightarrow> string \<Rightarrow> element \<Rightarrow> cloner \<Rightarrow> element result" where
  "style_body env url elem st =
     (let style = (case get_attr ''style'' elem of None \<Rightarrow> [] | Some v \<Rightarrow> v)
      in if str_in ''background-image'' style \<or> str_in ''background:'' style
         then (case process_css_urls env style url st of
                 (Inl e, st1) \<Rightarrow> (Inl e, st1)
               | (Inr style', st1) \<Rightarrow> (Inr (set_attr ''style'' style' elem), st1))
         else (Inr elem, st))"

definition script_body :: "env \<Rightarrow> string \<Rightarrow> element \<Rightarrow> cloner \<Rightarrow> element result" where
  "script_body env url script st =
     (case get_attr ''src'' script of
        None \<Rightarrow> (Inr script, st)
      | Some src \<Rightarrow>
          if src = [] then (Inr script, st)
          else case normalize_url env st src (Some url) of
            Inl e \<Rightarrow> (Inl e, st)
          | Inr js_url \<Rightarrow>
              if js_url = [] then (Inr script, st)
              else case download_js env js_url st of
                (Inl e, st1) \<Rightarrow> (Inl e, st1)
              | (Inr local_js, st1) \<Rightarrow>
                  if local_js \<noteq> []
                  then (Inr (set_attr ''src'' (''../js/'' @ local_js) script), st1)
                  else (Inr script, st1))"

definition icon_body :: "env \<Rightarrow> string \<Rightarrow> element \<Rightarrow> cloner \<Rightarrow> element result" where
  "icon_body env url link st =
     (case get_attr ''href'' link of
        None \<Rightarrow> (Inr link, st)
      | Some href \<Rightarrow>
          if href = [] then (Inr link, st)
          else case normalize_url env st href (Some url) of
            Inl e \<Rightarrow> (Inl e, st)
          | Inr icon_url \<Rightarrow>
              if icon_url = [] then (Inr link, st)
              else case download_image env icon_url st of
                (Inl e, st1) \<Rightarrow> (Inl e, st1)
              | (Inr local_icon, st1) \<Rightarrow>
                  if local_icon \<noteq> []
                  then (Inr (set_attr ''href'' (''../images/'' @ local_icon) link), st1)
                  else (Inr link, st1))"

text \<open>The five loops one after the other; the first exception ends them.\<close>

definition download_resources :: "env \<Rightarrow> string \<Rightarrow> soup \<Rightarrow> cloner \<Rightarrow> soup result" where
  "download_resources env url soup st =
     (case for_each is_stylesheet_link (css_link_body env url) soup st of
        (Inl e, st1) \<Rightarrow> (Inl e, st1)
      | (Inr soup1, st1) \<Rightarrow>
     (case for_each is_img (img_body env url) soup1 st1 of
        (Inl e, st2) \<Rightarrow> (Inl e, st2)
      | (Inr soup2, st2) \<Rightarrow>
     (case for_each has_style (style_body env url) soup2 st2 of
        (Inl e, st3) \<Rightarrow> (Inl e, st3)
      | (Inr soup3, st3) \<Rightarrow>
     (case for_each is_script_src (script_body env url) soup3 st3 of
        (Inl e, st4) \<Rightarrow> (Inl e, st4)
      | (Inr soup4, st4) \<Rightarrow>
          for_each is_icon_link (icon_body env url) soup4 st4))))"

text \<open>The block \<open>if save_html:\<close> at the end of \<open>scrape_page\<close>, with its \<open>return soup\<close>.\<close>

definition save_html_file :: "env \<Rightarrow> string \<Rightarrow> soup \<Rightarrow> cloner \<Rightarrow> soup option \<times> cloner" where
  "save_html_file env url soup st =
     (case get_filename_from_url env url ''page_'' of
        Inl e \<Rightarrow> (None, st)
      | Inr filename \<Rightarrow>
          let filepath = path_join (path_join (output_dir st) ''html'') filename
          in if can_write env filepath
             then (Some soup, st\<lparr>files := (files st)(filepath \<mapsto> Text (prettify env soup))\<rparr>)
             else (None, st))"

text \<open>
  \<open>scrape_page\<close>. The page is added to \<open>visited_pages\<close> after its fetch succeeded.
  Whatever is raised after the first line is caught: the result is \<open>None\<close> and the
  state keeps the changes made until then.
\<close>

definition scrape_page :: "env \<Rightarrow> string \<Rightarrow> bool \<Rightarrow> cloner \<Rightarrow> soup option \<times> cloner" where
  "scrape_page env url save_html st =
     (if url |\<in>| visited_pages st then (None, st)
      else case fetch env url st of
        (None, st1) \<Rightarrow> (None, st1)
      | (Some response, st1) \<Rightarrow>
          let soup = html_parser env (resp_content response);
              st2 = st1\<lparr>visited_pages := finsert url (visited_pages st1)\<rparr>;
              st3 = extract_inline_css soup st2
          in case download_resources env url soup st3 of
               (Inl e, st4) \<Rightarrow> (None, st4)
             | (Inr soup4, st4) \<Rightarrow>
                 if save_html then save_html_file env url soup4 st4
                 else (Some soup4, st4))"

subsection \<open>What the downloads leave alone\<close>

text \<open>
  No download touches the pages visited or the three fields set by \<open>__init__\<close>.
\<close>

definition keeps :: "cloner \<Rightarrow> cloner \<Rightarrow> bool" where
  "keeps st st' \<longleftrightarrow>
     visited_pages st' = visited_pages st \<and> base_url st' = base_url st
     \<and> domain st' = domain st \<and> output_dir st' = output_dir st"

lemma keeps_refl [simp]: "keeps st st"
  by (simp add: keeps_def)

lemma keeps_trans: "keeps a b \<Longrightarrow> keeps b c \<Longrightarrow> keeps a c"
  by (simp add: keeps_def)

lemma fetch_keeps: "fetch env u st = (r, st') \<Longrightarrow> keeps st st'"
  by (auto simp: fetch_def keeps_def)

lemma download_image_keeps: "download_image env u st = (r, st') \<Longrightarrow> keeps st st'"
  by (auto simp: download_image_def fetch_def keeps_def Let_def
      split: option.splits sum.splits if_splits)

lemma download_font_keeps: "download_font env u st = (r, st') \<Longrightarrow> keeps st st'"
  by (auto simp: download_font_def fetch_def keeps_def Let_def
      split: option.splits sum.splits if_splits)

lemma download_js_keeps: "download_js env u st = (r, st') \<Longrightarrow> keeps st st'"
  by (auto simp: download_js_def fetch_def keeps_def Let_def
      split: option.splits sum.splits if_splits)


lemma replace_url_keeps: "replace_url env c g0 u st = (r, st') \<Longrightarrow> keeps st st'"
  unfolding replace_url_def
  by (auto split: sum.splits prod.splits if_splits
      dest: download_image_keeps download_font_keeps)

lemma sub_tokens_keeps: "sub_tokens env c ts st = (r, st') \<Longrightarrow> keeps st st'"
proof (induction ts arbitrary: st r st')
  case Nil
  then show ?case by simp
next
  case (Cons t ts)
  show ?case
  proof (cases t)
    case (Lit ch)
    with Cons show ?thesis
      by (auto split: sum.splits prod.splits)
  next
    case (UrlMatch g0 g1)
    with Cons.prems show ?thesis
      by (auto split: sum.splits prod.splits
          dest: replace_url_keeps intro: keeps_trans [OF replace_url_keeps Cons.IH])
  qed
qed


lemma process_css_urls_keeps: "process_css_urls env s c st = (r, st') \<Longrightarrow> keeps st st'"
  unfolding process_css_urls_def by (rule sub_tokens_keeps)

lemma download_css_keeps:
  assumes a: "download_css env u st = (r, st')"
  shows "keeps st st'"
proof (cases "u |\<in>| downloaded_css st")
  case True
  with a show ?thesis by (simp add: download_css_def)
next
  case False
  define st1 where "st1 = st\<lparr>requests := requests st @ [u]\<rparr>"
  have k1: "keeps st st1" by (simp add: st1_def keeps_def)
  show ?thesis
  proof (cases "http_get env (length (requests st)) u")
    case None
    with False a have "st' = st1"
      by (simp add: download_css_def fetch_def st1_def)
    with k1 show ?thesis by simp
  next
    case (Some resp)
    show ?thesis
    proof (cases "get_filename_from_url env u ''style_''")
      case (Inl e)
      with False Some a have "st' = st1"
        by (simp add: download_css_def fetch_def st1_def)
      with k1 show ?thesis by simp
    next
      case (Inr filename)
      obtain r2 st2 where p: "process_css_urls env (resp_text resp) u st1 = (r2, st2)"
        by (cases "process_css_urls env (resp_text resp) u st1")
      have k2: "keeps st1 st2" by (rule process_css_urls_keeps [OF p])
      have "keeps st2 st'"
        using a False Some Inr p
        by (cases r2)
           (auto simp: download_css_def fetch_def Let_def st1_def [symmetric] keeps_def
              split: if_splits)
      with k1 k2 show ?thesis by (blast intro: keeps_trans)
    qed
  qed
qed

lemma for_each_keeps:
  assumes body: "\<And>e st r st'. body e st = (r, st') \<Longrightarrow> keeps st st'"
  shows "for_each sel body es st = (r, st') \<Longrightarrow> keeps st st'"
proof (induction es arbitrary: st r st')
  case Nil
  then show ?case by simp
next
  case (Cons e es)
  show ?case
  proof (cases "sel e")
    case True
    obtain r1 st1 where b: "body e st = (r1, st1)" by (cases "body e st")
    from body [OF b] have k1: "keeps st st1" .
    show ?thesis
    proof (cases r1)
      case (Inl err)
      with Cons.prems True b k1 show ?thesis by simp
    next
      case (Inr e')
      obtain r2 st2 where f: "for_each sel body es st1 = (r2, st2)"
        by (cases "for_each sel body es st1")
      from Cons.IH [OF f] have "keeps st1 st2" .
      with k1 have "keeps st st2" by (rule keeps_trans)
      with Cons.prems True b Inr f show ?thesis
        by (auto split: sum.splits)
    qed
  next
    case False
    obtain r2 st2 where f: "for_each sel body es st = (r2, st2)"
      by (cases "for_each sel body es st")
    from Cons.IH [OF f] have "keeps st st2" .
    with Cons.prems False f show ?thesis
      by (auto split: sum.splits)
  qed
qed

lemma css_link_body_keeps: "css_link_body env url e st = (r, st') \<Longrightarrow> keeps st st'"
  unfolding css_link_body_def
  by (auto split: option.splits sum.splits prod.splits if_splits dest: download_css_keeps)

lemma img_body_keeps: "img_body env url e st = (r, st') \<Longrightarrow> keeps st st'"
  unfolding img_body_def
  by (auto split: option.splits sum.splits prod.splits if_splits dest: download_image_keeps)

lemma style_body_keeps: "style_body env url e st = (r, st') \<Longrightarrow> keeps st st'"
  unfolding style_body_def Let_def
  by (auto split: option.splits sum.splits prod.splits if_splits dest: process_css_urls_keeps)

lemma script_body_keeps: "script_body env url e st = (r, st') \<Longrightarrow> keeps st st'"
  unfolding script_body_def
  by (auto split: option.splits sum.splits prod.splits if_splits dest: download_js_keeps)

lemma icon_body_keeps: "icon_body env url e st = (r, st') \<Longrightarrow> keeps st st'"
  unfolding icon_body_def
  by (auto split: option.splits sum.splits prod.splits if_splits dest: download_image_keeps)

lemma seq_keeps:
  assumes "(case x of (Inl e, s) \<Rightarrow> (Inl e, s) | (Inr v, s) \<Rightarrow> f v s) = (r, st')"
    and "\<And>r1 s1. x = (r1, s1) \<Longrightarrow> keeps st s1"
    and "\<And>v s r' s'. f v s = (r', s') \<Longrightarrow> keeps s s'"
  shows "keeps st st'"
proof (cases x)
  case (Pair r1 s1)
  with assms(2) have k: "keeps st s1" by simp
  show ?thesis
  proof (cases r1)
    case (Inl e)
    with Pair assms(1) k show ?thesis by simp
  next
    case (Inr v)
    with Pair assms(1) have "f v s1 = (r, st')" by simp
    from assms(3) [OF this] k show ?thesis by (blast intro: keeps_trans)
  qed
qed

lemma loops_keep:
  "for_each is_stylesheet_link (css_link_body env url) soup st = (r, st') \<Longrightarrow> keeps st st'"
  "for_each is_img (img_body env url) soup st = (r, st') \<Longrightarrow> keeps st st'"
  "for_each has_style (style_body env url) soup st = (r, st') \<Longrightarrow> keeps st st'"
  "for_each is_script_src (script_body env url) soup st = (r, st') \<Longrightarrow> keeps st st'"
  "for_each is_icon_link (icon_body env url) soup st = (r, st') \<Longrightarrow> keeps st st'"
proof -
  show "for_each is_stylesheet_link (css_link_body env url) soup st = (r, st') \<Longrightarrow> keeps st st'"
    using css_link_body_keeps by (rule for_each_keeps)
  show "for_each is_img (img_body env url) soup st = (r, st') \<Longrightarrow> keeps st st'"
    using img_body_keeps by (rule for_each_keeps)
  show "for_each has_style (style_body env url) soup st = (r, st') \<Longrightarrow> keeps st st'"
    using style_body_keeps by (rule for_each_keeps)
  show "for_each is_script_src (script_body env url) soup st = (r, st') \<Longrightarrow> keeps st st'"
    using script_body_keeps by (rule for_each_keeps)
  show "for_each is_icon_link (icon_body env url) soup st = (r, st') \<Longrightarrow> keeps st st'"
    using icon_body_keeps by (rule for_each_keeps)
qed

lemma download_resources_keeps:
  assumes "download_resources env url soup st = (r, st')"
  shows "keeps st st'"
proof -
  have 5: "keeps s s'" if "for_each is_icon_link (icon_body env url) v s = (r', s')"
    for v s r' s' using that by (rule loops_keep)
  have 4: "keeps s s'"
    if "(case for_each is_script_src (script_body env url) v s of
           (Inl e, st4) \<Rightarrow> (Inl e, st4)
         | (Inr soup4, st4) \<Rightarrow> for_each is_icon_link (icon_body env url) soup4 st4) = (r', s')"
    for v s r' s'
    using that by (rule seq_keeps) (erule loops_keep, erule 5)
  have 3: "keeps s s'"
    if "(case for_each has_style (style_body env url) v s of
           (Inl e, st3) \<Rightarrow> (Inl e, st3)
         | (Inr soup3, st3) \<Rightarrow>
             (case for_each is_script_src (script_body env url) soup3 st3 of
                (Inl e, st4) \<Rightarrow> (Inl e, st4)
              | (Inr soup4, st4) \<Rightarrow> for_each is_icon_link (icon_body env url) soup4 st4))
        = (r', s')"
    for v s r' s'
    using that by (rule seq_keeps) (erule loops_keep, erule 4)
  have 2: "keeps s s'"
    if "(case for_each is_img (img_body env url) v s of
           (Inl e, st2) \<Rightarrow> (Inl e, st2)
         | (Inr soup2, st2) \<Rightarrow>
         (case for_each has_style (style_body env url) soup2 st2 of
           (Inl e, st3) \<Rightarrow> (Inl e, st3)
         | (Inr soup3, st3) \<Rightarrow>
             (case for_each is_script_src (script_body env url) soup3 st3 of
                (Inl e, st4) \<Rightarrow> (Inl e, st4)
              | (Inr soup4, st4) \<Rightarrow> for_each is_icon_link (icon_body env url) soup4 st4)))
        = (r', s')"
    for v s r' s'
    using that by (rule seq_keeps) (erule loops_keep, erule 3)
  show ?thesis
    using assms unfolding download_resources_def
    by (rule seq_keeps) (erule loops_keep, erule 2)
qed

lemma extract_inline_css_keeps: "keeps st (extract_inline_css soup st)"
proof (induction soup arbitrary: st)
  case Nil
  then show ?case by simp
next
  case (Cons e es)
  have "keeps st (st\<lparr>inline_styles := inline_styles st @ [t]\<rparr>)" for t
    by (simp add: keeps_def)
  then show ?case
    using Cons.IH by (auto split: option.splits intro: keeps_trans)
qed



lemma save_html_file_keeps: "save_html_file env url soup st = (r, st') \<Longrightarrow> keeps st st'"
  by (auto simp: save_html_file_def Let_def keeps_def split: sum.splits if_splits)

lemma scrape_page_visited_url:
  "url |\<in>| visited_pages st \<Longrightarrow> scrape_page env url save_html st = (None, st)"
  by (simp add: scrape_page_def)

lemma scrape_page_fetch_failed:
  "url |\<notin>| visited_pages st \<Longrightarrow> http_get env (length (requests st)) url = None \<Longrightarrow>
   scrape_page env url save_html st = (None, st\<lparr>requests := requests st @ [url]\<rparr>)"
  by (simp add: scrape_page_def fetch_def)

lemma scrape_page_fetched:
  "url |\<notin>| visited_pages st \<Longrightarrow> http_get env (length (requests st)) url = Some resp \<Longrightarrow>
   scrape_page env url save_html st =
     (case download_resources env url (html_parser env (resp_content resp))
             (extract_inline_css (html_parser env (resp_content resp))
                (st\<lparr>requests := requests st @ [url],
                    visited_pages := finsert url (visited_pages st)\<rparr>)) of
        (Inl e, st4) \<Rightarrow> (None, st4)
      | (Inr soup4, st4) \<Rightarrow>
          if save_html then save_html_file env url soup4 st4 else (Some soup4, st4))"
  by (simp add: scrape_page_def fetch_def Let_def)

lemma scrape_page_keeps:
  assumes "scrape_page env url save_html st = (r, st')"
  shows "(visited_pages st' = visited_pages st \<and> r = None
          \<or> visited_pages st' = finsert url (visited_pages st))
         \<and> base_url st' = base_url st \<and> domain st' = domain st
         \<and> output_dir st' = output_dir st"
proof (cases "url |\<in>| visited_pages st")
  case True
  with assms show ?thesis by (simp add: scrape_page_visited_url)
next
  case False
  show ?thesis
  proof (cases "http_get env (length (requests st)) url")
    case None
    from assms show ?thesis
      unfolding scrape_page_fetch_failed [OF False None] by auto
  next
    case (Some resp)
    let ?st2 = "st\<lparr>requests := requests st @ [url],
                   visited_pages := finsert url (visited_pages st)\<rparr>"
    let ?soup = "html_parser env (resp_content resp)"
    obtain r4 st4 where
      d: "download_resources env url ?soup (extract_inline_css ?soup ?st2) = (r4, st4)"
      by (cases "download_resources env url ?soup (extract_inline_css ?soup ?st2)")
    have "keeps ?st2 (extract_inline_css ?soup ?st2)"
      by (rule extract_inline_css_keeps)
    moreover have "keeps (extract_inline_css ?soup ?st2) st4"
      by (rule download_resources_keeps [OF d])
    ultimately have k4: "keeps ?st2 st4"
      by (rule keeps_trans)
    have eq: "(case (r4, st4) of
                 (Inl e, st4) \<Rightarrow> (None, st4)
               | (Inr soup4, st4) \<Rightarrow>
                   if save_html then save_html_file env url soup4 st4 else (Some soup4, st4))
              = (r, st')"
      using assms unfolding scrape_page_fetched [OF False Some] d .
    have "keeps st4 st'"
    proof (cases r4)
      case (Inl e)
      with eq show ?thesis by simp
    next
      case (Inr soup4)
      show ?thesis
      proof (cases save_html)
        case True
        with eq Inr have "save_html_file env url soup4 st4 = (r, st')" by simp
        then show ?thesis by (rule save_html_file_keeps)
      next
        case False
        with eq Inr show ?thesis by simp
      qed
    qed
    with k4 have "keeps ?st2 st'" by (rule keeps_trans)
    then show ?thesis by (simp add: keeps_def)
  qed
qed


section \<open>The crawl\<close>

definition non_html_exts :: "string list" where
  "non_html_exts = [''.pdf'', ''.zip'', ''.doc'', ''.xls'']"

text \<open>
  A set that is only built, subtracted from and popped is modelled by the list of
  its elements: \<open>set.add\<close> appends what is not there yet.
\<close>

definition set_add :: "string \<Rightarrow> string list \<Rightarrow> string list" where
  "set_add x xs = (if x \<in> set xs then xs else xs @ [x])"

text \<open>
  \<open>find_internal_links\<close>: the loop over \<open>soup.find_all('a', href=True)\<close>, with
  \<open>internal_links\<close> as its accumulator.
\<close>

fun find_links_loop ::
  "env \<Rightarrow> cloner \<Rightarrow> string \<Rightarrow> soup \<Rightarrow> string list \<Rightarrow> error + string list" where
  "find_links_loop env self base [] internal_links = Inr internal_links"
| "find_links_loop env self base (link # links) internal_links =
     (if is_a_href link then
        (case normalize_url env self (case get_attr ''href'' link of None \<Rightarrow> [] | Some h \<Rightarrow> h)
                (Some base) of
           Inl e \<Rightarrow> Inl e
         | Inr absolute_url \<Rightarrow>
             if absolute_url = [] then find_links_loop env self base links internal_links
             else (case is_same_domain env self absolute_url of
                     Inl e \<Rightarrow> Inl e
                   | Inr same \<Rightarrow>
                       if same \<and> \<not> any_in non_html_exts (lower absolute_url)
                       then find_links_loop env self base links
                              (set_add absolute_url internal_links)
                       else find_links_loop env self base links internal_links))
      else find_links_loop env self base links internal_links)"

definition find_internal_links :: "env \<Rightarrow> cloner \<Rightarrow> soup \<Rightarrow> string \<Rightarrow> error + string list" where
  "find_internal_links env self soup base = find_links_loop env self base soup []"

text \<open>
  One iteration of the \<open>while\<close> loop of \<open>scrape_full_site\<close>.
  \<open>pages_to_visit.pop()\<close> takes an arbitrary element of the set: \<open>pop n\<close> chooses
  it for iteration \<open>n\<close>, by its index modulo the size, so that every sequence of
  choices is the behaviour of some \<open>pop\<close>. The result is the new \<open>pages_to_visit\<close>;
  an exception of \<open>find_internal_links\<close> is not caught.
\<close>

definition crawl_step ::
  "env \<Rightarrow> (nat \<Rightarrow> string list \<Rightarrow> nat) \<Rightarrow> nat \<Rightarrow> string list \<Rightarrow> cloner \<Rightarrow> (string list) result"
where
  "crawl_step env pop n pages_to_visit st =
     (let url = pages_to_visit ! (pop n pages_to_visit mod length pages_to_visit);
          rest = removeAll url pages_to_visit
      in if url |\<in>| visited_pages st then (Inr rest, st)
         else case scrape_page env url True st of
           (None, st1) \<Rightarrow> (Inr rest, st1)
         | (Some soup, st1) \<Rightarrow>
             (case find_internal_links env st1 soup url of
                Inl e \<Rightarrow> (Inl e, st1)
              | Inr new_links \<Rightarrow>
                  (Inr (fold set_add (filter (\<lambda>u. u |\<notin>| visited_pages st1) new_links) rest),
                   st1)))"

text \<open>The loop ends: each iteration visits a page more or leaves a page less to visit.\<close>

definition crawl_measure :: "int \<Rightarrow> string list \<Rightarrow> cloner \<Rightarrow> nat \<times> nat" where
  "crawl_measure max_pages pages_to_visit st =
     (nat max_pages - fcard (visited_pages st), length pages_to_visit)"

lemma crawl_step_decreases:
  assumes ne: "pages_to_visit \<noteq> []"
    and cap: "int (fcard (visited_pages st)) < max_pages"
    and step: "crawl_step env pop n pages_to_visit st = (Inr pages', st')"
  shows "(crawl_measure max_pages pages' st', crawl_measure max_pages pages_to_visit st)
           \<in> less_than <*lex*> less_than"
proof -
  define url where "url = pages_to_visit ! (pop n pages_to_visit mod length pages_to_visit)"
  have mem: "url \<in> set pages_to_visit"
    unfolding url_def using ne by simp
  then have shorter: "length (removeAll url pages_to_visit) < length pages_to_visit"
    by (simp add: length_removeAll_less)
  show ?thesis
  proof (cases "url |\<in>| visited_pages st")
    case True
    with step have "pages' = removeAll url pages_to_visit" "st' = st"
      by (simp_all add: crawl_step_def Let_def url_def [symmetric])
    with shorter show ?thesis by (simp add: crawl_measure_def)
  next
    case False
    obtain r st1 where sp: "scrape_page env url True st = (r, st1)"
      by (cases "scrape_page env url True st")
    have st': "st' = st1"
      using step False sp
      by (cases r; cases "find_internal_links env st1 (the r) url")
         (simp_all add: crawl_step_def Let_def url_def [symmetric])
    have grow: "fcard (finsert url (visited_pages st)) = Suc (fcard (visited_pages st))"
      using False by (simp add: fcard_finsert_disjoint)
    show ?thesis
    proof (cases "visited_pages st1 = finsert url (visited_pages st)")
      case True
      with grow cap st' show ?thesis
        by (simp add: crawl_measure_def) linarith
    next
      case False
      with scrape_page_keeps [OF sp] have same: "visited_pages st1 = visited_pages st" "r = None"
        by auto
      with step \<open>url |\<notin>| visited_pages st\<close> sp have "pages' = removeAll url pages_to_visit"
        by (simp add: crawl_step_def Let_def url_def [symmetric])
      with shorter same st' show ?thesis by (simp add: crawl_measure_def)
    qed
  qed
qed

function crawl_loop ::
  "env \<Rightarrow> (nat \<Rightarrow> string list \<Rightarrow> nat) \<Rightarrow> int \<Rightarrow> nat \<Rightarrow> string list \<Rightarrow> cloner \<Rightarrow> unit result"
where
  "crawl_loop env pop max_pages n pages_to_visit st =
     (if pages_to_visit \<noteq> [] \<and> int (fcard (visited_pages st)) < max_pages
      then (case crawl_step env pop n pages_to_visit st of
              (Inl e, st1) \<Rightarrow> (Inl e, st1)
            | (Inr pages', st1) \<Rightarrow> crawl_loop env pop max_pages (Suc n) pages' st1)
      else (Inr (), st))"
  by pat_completeness auto
termination
  by (relation "inv_image (less_than <*lex*> less_than)
        (\<lambda>(env, pop, max_pages, n, pages_to_visit, st). crawl_measure max_pages pages_to_visit st)")
     (auto intro: crawl_step_decreases [OF _ _ sym])

declare crawl_loop.simps [simp del]


text \<open>\<open>_save_summary\<close>; an exception of one of its two writes is not caught.\<close>

definition styles_separator :: string where
  "styles_separator =
     [CHR 0x0A, CHR 0x0A] @ ''/* ========================================= */''
     @ [CHR 0x0A, CHR 0x0A]"

definition make_summary :: "cloner \<Rightarrow> summary" where
  "make_summary st =
     \<lparr>sum_base_url = base_url st,
      pages_scraped = fcard (visited_pages st),
      sum_visited_pages = visited_pages st,
      images_downloaded = fcard (downloaded_images st),
      image_urls = downloaded_images st,
      css_files_downloaded = fcard (downloaded_css st),
      css_urls = downloaded_css st,
      js_files_downloaded = fcard (downloaded_js st),
      js_urls = downloaded_js st,
      inline_styles_count = length (inline_styles st)\<rparr>"

definition save_summary :: "env \<Rightarrow> cloner \<Rightarrow> unit result" where
  "save_summary env st =
     (let filepath = path_join (output_dir st) ''scrape_summary.json''
      in if can_write env filepath then
           let st1 = st\<lparr>files := (files st)(filepath \<mapsto> Json (make_summary st))\<rparr>
           in if inline_styles st1 \<noteq> [] then
                let css_filepath = path_join (path_join (output_dir st1) ''css'')
                                     ''inline_styles.css''
                in if can_write env css_filepath
                   then (Inr (),
                         st1\<lparr>files := (files st1)(css_filepath \<mapsto>
                                Text (join styles_separator (inline_styles st1)))\<rparr>)
                   else (Inl OSError, st1)
              else (Inr (), st1)
         else (Inl OSError, st))"

text \<open>
  \<open>scrape_full_site(max_pages, delay)\<close>. The delay, a non-negative number of seconds
  slept after each page, changes nothing else and is left out.
\<close>

definition scrape_full_site ::
  "env \<Rightarrow> (nat \<Rightarrow> string list \<Rightarrow> nat) \<Rightarrow> int \<Rightarrow> cloner \<Rightarrow> unit result"
where
  "scrape_full_site env pop max_pages st =
     (case crawl_loop env pop max_pages 0 [base_url st] st of
        (Inl e, st1) \<Rightarrow> (Inl e, st1)
      | (Inr u, st1) \<Rightarrow> save_summary env st1)"


section \<open>Properties\<close>

subsection \<open>Examples and evaluation\<close>

text \<open>The equations that evaluate the URL functions on a given string.\<close>

lemmas url_eval =
  urljoin_def urlparse_def urlsplit_def Let_def remove_unsafe_def unsafe_url_bytes_def
  str_replace.simps is_c0_or_space_def is_ascii_alpha_def scheme_chars_def lower_def
  lower_char_def is_upper_def splitnetloc_def split_first_def uses_params_def
  uses_relative_def uses_netloc_def filter_middle_def urlunparse_def urlunsplit_def
  bracketed_host_def splitparams_def find_char_from_def rfind_char_def
  strip_def lstrip_def rstrip_def path_join_def suffix_to_prefix

text \<open>
  An environment where nothing can be fetched and every write succeeds, and the cloner
  that \<open>WebsiteCloner("https://example.com", "output")\<close> builds in it.
\<close>

definition example_env :: env where
  "example_env =
     \<lparr>check_bracketed_host = (\<lambda>h. True), http_get = (\<lambda>n url. None),
      html_parser = (\<lambda>content. []), prettify = (\<lambda>soup. []),
      can_mkdir = (\<lambda>d. True), can_write = (\<lambda>f. True)\<rparr>"

definition example_cloner :: cloner where
  "example_cloner =
     \<lparr>base_url = ''https://example.com'', domain = ''example.com'', output_dir = ''output'',
      downloaded_images = {||}, downloaded_css = {||}, downloaded_js = {||},
      visited_pages = {||}, all_css_rules = [], inline_styles = [],
      files = Map.empty, requests = []\<rparr>"

lemma init_example:
  "init example_env ''https://example.com'' ''output'' = Inr example_cloner"
  by (simp add: init_def example_env_def example_cloner_def url_eval directories_def
      path_join_def rstrip_def)

lemma parse_www:
  "urlparse ok ''https://www.example.com/x'' [] =
     Inr \<lparr>scheme = ''https'', netloc = ''www.example.com'', path = ''/x'', params = [],
          query = [], fragment = []\<rparr>"
  by (simp add: url_eval)


subsection \<open>URL normalisation\<close>

text \<open>
  C5: \<open>_normalize_url\<close> applied to its own output should give that output again.
  The guard at its head is meant to turn every \<open>data:\<close> and \<open>javascript:\<close> reference
  into the empty string, but \<open>str.startswith\<close> distinguishes case while \<open>urlparse\<close>
  lower-cases the scheme. So \<open>JAVASCRIPT:alert(1)\<close> slips past the guard and comes out
  as \<open>javascript:alert(1)\<close>, an output that the guard then turns into the empty
  string: the code is not idempotent there.
\<close>

theorem normalize_url_not_idempotent:
  "normalize_url example_env example_cloner ''JAVASCRIPT:alert(1)'' None
     = Inr ''javascript:alert(1)''
   \<and> normalize_url example_env example_cloner ''javascript:alert(1)'' None = Inr []
   \<and> ''javascript:alert(1)'' \<noteq> []"
  by (simp add: normalize_url_def example_env_def example_cloner_def url_eval)

subsection \<open>Same domain\<close>

lemma str_replace_absent:
  "old \<noteq> [] \<Longrightarrow> \<not> str_in old s \<Longrightarrow> str_replace old new s = s"
proof (induction s)
  case Nil
  then show ?case by (simp add: str_replace.simps)
next
  case (Cons c s)
  then show ?case
    by (subst str_replace.simps) auto
qed

lemma str_replace_prefix:
  "old \<noteq> [] \<Longrightarrow> str_replace old new (old @ s) = new @ str_replace old new s"
  by (subst str_replace.simps) simp

lemma www_replace:
  "\<not> str_in ''www.'' h \<Longrightarrow> str_replace ''www.'' [] (''www.'' @ h) = h"
  using str_replace_prefix [of "''www.''" "[]" h] str_replace_absent [of "''www.''" h "[]"]
  by simp

lemma is_same_domain_cases:
  "urlparse (check_bracketed_host env) url [] = Inr p \<Longrightarrow>
   (netloc p = ''www.'' @ domain self \<longrightarrow> is_same_domain env self url = Inr True)
   \<and> (domain self = ''www.'' @ netloc p \<and> \<not> str_in ''www.'' (netloc p)
        \<longrightarrow> is_same_domain env self url = Inr True)
   \<and> (netloc p = [] \<longrightarrow> is_same_domain env self url = Inr True)"
  using www_replace [of "netloc p"]
  by (auto simp: is_same_domain_def)

lemma parse_example_com:
  "urlparse ok ''https://example.com/x'' [] =
     Inr \<lparr>scheme = ''https'', netloc = ''example.com'', path = ''/x'', params = [],
          query = [], fragment = []\<rparr>"
  by (simp add: url_eval)

definition www_cloner :: cloner where
  "www_cloner =
     example_cloner\<lparr>base_url := ''https://www.example.com'', domain := ''www.example.com''\<rparr>"

lemma init_www:
  "init example_env ''https://www.example.com/'' ''output'' = Inr www_cloner"
  by (simp add: init_def example_env_def example_cloner_def www_cloner_def url_eval
      directories_def path_join_def rstrip_def)

text \<open>
  C6: a URL whose host is \<open>www.\<close> followed by the site domain is same-domain, and
  so is a URL whose host is the site domain without its \<open>www.\<close> prefix, the host
  itself not containing \<open>www.\<close> (as \<open>example.com\<close> does not): \<open>str.replace\<close> removes
  every occurrence.
\<close>

theorem is_same_domain_www:
  "urlparse (check_bracketed_host env) url [] = Inr p \<Longrightarrow>
   (netloc p = ''www.'' @ domain self \<longrightarrow> is_same_domain env self url = Inr True)
   \<and> (domain self = ''www.'' @ netloc p \<and> \<not> str_in ''www.'' (netloc p)
        \<longrightarrow> is_same_domain env self url = Inr True)"
  using is_same_domain_cases [of env url p self] by simp

theorem is_same_domain_www_witness:
  "domain example_cloner = ''example.com''
   \<and> is_same_domain example_env example_cloner ''https://www.example.com/x'' = Inr True
   \<and> domain www_cloner = ''www.example.com''
   \<and> is_same_domain example_env www_cloner ''https://example.com/x'' = Inr True"
  using is_same_domain_www [where env = example_env and self = example_cloner, OF parse_www]
    is_same_domain_www [where env = example_env and self = www_cloner, OF parse_example_com]
  by (simp add: example_cloner_def www_cloner_def)


subsection \<open>Requesting an asset twice\<close>

lemma download_image_again:
  assumes "download_image env u st = (Inr f, st1)" and "f \<noteq> []"
  shows "download_image env u st1 = (Inr f, st1)"
proof (cases "u |\<in>| downloaded_images st")
  case True
  with assms show ?thesis by (auto simp: download_image_def)
next
  case False
  with assms have "u |\<in>| downloaded_images st1 \<and> get_filename_from_url env u ''img_'' = Inr f"
    by (auto simp: download_image_def fetch_def Let_def
        split: option.splits sum.splits if_splits)
  then show ?thesis by (simp add: download_image_def)
qed

lemma download_js_again:
  assumes "download_js env u st = (Inr f, st1)" and "f \<noteq> []"
  shows "download_js env u st1 = (Inr f, st1)"
proof (cases "u |\<in>| downloaded_js st")
  case True
  with assms show ?thesis by (auto simp: download_js_def)
next
  case False
  with assms have "u |\<in>| downloaded_js st1 \<and> get_filename_from_url env u ''script_'' = Inr f"
    by (auto simp: download_js_def fetch_def Let_def
        split: option.splits sum.splits if_splits)
  then show ?thesis by (simp add: download_js_def)
qed

lemma download_css_again:
  assumes "download_css env u st = (Inr f, st1)" and "f \<noteq> []"
  shows "download_css env u st1 = (Inr f, st1)"
proof (cases "u |\<in>| downloaded_css st")
  case True
  with assms show ?thesis by (auto simp: download_css_def)
next
  case False
  show ?thesis
  proof (cases "http_get env (length (requests st)) u")
    case None
    with False assms show ?thesis by (simp add: download_css_def fetch_def)
  next
    case (Some resp)
    show ?thesis
    proof (cases "get_filename_from_url env u ''style_''")
      case (Inl e)
      with False Some assms show ?thesis by (simp add: download_css_def fetch_def)
    next
      case (Inr filename)
      obtain r2 st2 where
        p: "process_css_urls env (resp_text resp) u (st\<lparr>requests := requests st @ [u]\<rparr>)
              = (r2, st2)"
        by (cases "process_css_urls env (resp_text resp) u (st\<lparr>requests := requests st @ [u]\<rparr>)")
      from assms False Some Inr p
      have "u |\<in>| downloaded_css st1 \<and> filename = f"
        by (cases r2) (auto simp: download_css_def fetch_def Let_def split: if_splits)
      with Inr show ?thesis by (simp add: download_css_def)
    qed
  qed
qed



lemma get_filename_ignores_query:
  "urlparse (check_bracketed_host env) u1 [] = Inr p1 \<Longrightarrow>
   urlparse (check_bracketed_host env) u2 [] = Inr (p1\<lparr>query := q\<rparr>) \<Longrightarrow>
   get_filename_from_url env u1 pre = get_filename_from_url env u2 pre"
  by (simp add: get_filename_from_url_def)

lemma download_image_fresh:
  "u |\<notin>| downloaded_images st \<Longrightarrow> http_get env (length (requests st)) u = Some resp \<Longrightarrow>
   get_filename_from_url env u ''img_'' = Inr f \<Longrightarrow>
   can_write env (path_join (path_join (output_dir st) ''images'') f) \<Longrightarrow>
   download_image env u st =
     (Inr f, st\<lparr>requests := requests st @ [u],
              files := (files st)(path_join (path_join (output_dir st) ''images'') f
                         \<mapsto> Bytes (resp_content resp)),
              downloaded_images := finsert u (downloaded_images st)\<rparr>)"
  by (simp add: download_image_def fetch_def Let_def)

text \<open>An environment where every URL is served, with a body that names it.\<close>

definition serving_env :: env where
  "serving_env =
     example_env\<lparr>http_get := (\<lambda>n url.
        Some \<lparr>resp_content = ''content of '' @ url, resp_text = ''text of '' @ url\<rparr>)\<rparr>"

lemma filename_font:
  "get_filename_from_url env ''https://example.com/fonts/a.woff'' ''font_'' = Inr ''font_fonts_a.woff''"
  by (simp add: get_filename_from_url_def url_eval strip_def lstrip_def rstrip_def)

text \<open>
  C3, as stated: any asset URL, fonts included, requested twice in one run costs one
  fetch. This fails twice over. \<open>_download_font\<close> keeps no record, so a font served
  without error is fetched by each request; and an image whose fetch fails is not
  recorded either, so the second request fetches it again.
\<close>

theorem second_request_fetches_again:
  "requests (snd (download_font serving_env ''https://example.com/fonts/a.woff''
       (snd (download_font serving_env ''https://example.com/fonts/a.woff'' example_cloner))))
     = [''https://example.com/fonts/a.woff'', ''https://example.com/fonts/a.woff'']
   \<and> requests (snd (download_image example_env ''https://example.com/logo.png''
       (snd (download_image example_env ''https://example.com/logo.png'' example_cloner))))
     = [''https://example.com/logo.png'', ''https://example.com/logo.png'']"
  by (simp add: download_font_def download_image_def fetch_def filename_font Let_def
      serving_env_def example_env_def example_cloner_def)

lemma filename_logo:
  "get_filename_from_url env ''https://example.com/logo.png'' ''img_'' = Inr ''img_logo.png''"
  by (simp add: get_filename_from_url_def url_eval strip_def lstrip_def rstrip_def)

definition logo_state :: cloner where
  "logo_state =
     example_cloner\<lparr>requests := [''https://example.com/logo.png''],
       files := [''output/images/img_logo.png''
                   \<mapsto> Bytes ''content of https://example.com/logo.png''],
       downloaded_images := {|''https://example.com/logo.png''|}\<rparr>"

lemma download_logo:
  "download_image serving_env ''https://example.com/logo.png'' example_cloner
     = (Inr ''img_logo.png'', logo_state)"
  by (simp add: download_image_fresh [where f = "''img_logo.png''" and
        resp = "\<lparr>resp_content = ''content of https://example.com/logo.png'',
                 resp_text = ''text of https://example.com/logo.png''\<rparr>"]
      filename_logo serving_env_def example_env_def example_cloner_def logo_state_def
      path_join_def suffix_to_prefix)

lemma filename_banner:
  "get_filename_from_url env ''https://example.com/banner.png'' ''img_'' = Inr ''img_banner.png''"
  by (simp add: get_filename_from_url_def url_eval strip_def lstrip_def rstrip_def)

definition banner_state :: cloner where
  "banner_state =
     example_cloner\<lparr>requests := [''https://example.com/logo.png'',
                                 ''https://example.com/banner.png''],
       files := [''output/images/img_logo.png''
                   \<mapsto> Bytes ''content of https://example.com/logo.png'',
                 ''output/images/img_banner.png''
                   \<mapsto> Bytes ''content of https://example.com/banner.png''],
       downloaded_images := {|''https://example.com/banner.png'',
                              ''https://example.com/logo.png''|}\<rparr>"

lemma download_banner:
  "download_image serving_env ''https://example.com/banner.png'' logo_state
     = (Inr ''img_banner.png'', banner_state)"
  by (simp add: download_image_fresh [where f = "''img_banner.png''" and
        resp = "\<lparr>resp_content = ''content of https://example.com/banner.png'',
                 resp_text = ''text of https://example.com/banner.png''\<rparr>"]
      filename_banner serving_env_def example_env_def example_cloner_def logo_state_def
      banner_state_def path_join_def suffix_to_prefix)

subsection \<open>File names and query strings\<close>

text \<open>
  C9: two URLs whose parsed forms differ in the query only get the same file name, for
  every prefix. When they are distinct, both fetched for the first time and both
  served, each of them is requested, and the second download replaces the content the
  first one wrote at the shared path.
\<close>

theorem query_variants_share_file:
  assumes "urlparse (check_bracketed_host env) u1 [] = Inr p1"
    and "urlparse (check_bracketed_host env) u2 [] = Inr (p1\<lparr>query := q\<rparr>)"
  shows "get_filename_from_url env u1 pre = get_filename_from_url env u2 pre
     \<and> (u1 \<noteq> u2 \<and> u1 |\<notin>| downloaded_images st \<and> u2 |\<notin>| downloaded_images st
         \<and> http_get env (length (requests st)) u1 = Some r1
         \<and> http_get env (Suc (length (requests st))) u2 = Some r2
         \<and> get_filename_from_url env u1 ''img_'' = Inr f
         \<and> can_write env (path_join (path_join (output_dir st) ''images'') f)
        \<longrightarrow> (\<exists>st1 st2.
               download_image env u1 st = (Inr f, st1)
             \<and> download_image env u2 st1 = (Inr f, st2)
             \<and> requests st2 = requests st @ [u1, u2]
             \<and> files st1 (path_join (path_join (output_dir st) ''images'') f)
                 = Some (Bytes (resp_content r1))
             \<and> files st2 (path_join (path_join (output_dir st) ''images'') f)
                 = Some (Bytes (resp_content r2))))"
proof (intro conjI impI)
  show same: "get_filename_from_url env u1 pre = get_filename_from_url env u2 pre" for pre
    using assms by (rule get_filename_ignores_query)
  let ?fp = "path_join (path_join (output_dir st) ''images'') f"
  assume h: "u1 \<noteq> u2 \<and> u1 |\<notin>| downloaded_images st \<and> u2 |\<notin>| downloaded_images st
         \<and> http_get env (length (requests st)) u1 = Some r1
         \<and> http_get env (Suc (length (requests st))) u2 = Some r2
         \<and> get_filename_from_url env u1 ''img_'' = Inr f
         \<and> can_write env ?fp"
  let ?st1 = "st\<lparr>requests := requests st @ [u1],
              files := (files st)(?fp \<mapsto> Bytes (resp_content r1)),
              downloaded_images := finsert u1 (downloaded_images st)\<rparr>"
  let ?st2 = "?st1\<lparr>requests := requests ?st1 @ [u2],
              files := (files ?st1)(?fp \<mapsto> Bytes (resp_content r2)),
              downloaded_images := finsert u2 (downloaded_images ?st1)\<rparr>"
  have 1: "download_image env u1 st = (Inr f, ?st1)"
    using h by (simp add: download_image_fresh)
  have "get_filename_from_url env u2 ''img_'' = Inr f"
    using h same [of "''img_''"] by simp
  moreover have "u2 \<noteq> u1"
    using h by auto
  ultimately have 2: "download_image env u2 ?st1 = (Inr f, ?st2)"
    using h download_image_fresh [of u2 ?st1 env r2 f] by simp
  have "requests ?st2 = requests st @ [u1, u2]
      \<and> files ?st1 ?fp = Some (Bytes (resp_content r1))
      \<and> files ?st2 ?fp = Some (Bytes (resp_content r2))"
    by simp
  with 1 2 show "\<exists>st1 st2.
               download_image env u1 st = (Inr f, st1)
             \<and> download_image env u2 st1 = (Inr f, st2)
             \<and> requests st2 = requests st @ [u1, u2]
             \<and> files st1 ?fp = Some (Bytes (resp_content r1))
             \<and> files st2 ?fp = Some (Bytes (resp_content r2))"
    by blast
qed

lemma parse_logo_v1:
  "urlparse ok ''https://example.com/logo.png?v=1'' [] =
     Inr \<lparr>scheme = ''https'', netloc = ''example.com'', path = ''/logo.png'', params = [],
          query = ''v=1'', fragment = []\<rparr>"
  by (simp add: url_eval)

lemma parse_logo_v2:
  "urlparse ok ''https://example.com/logo.png?v=2'' [] =
     Inr \<lparr>scheme = ''https'', netloc = ''example.com'', path = ''/logo.png'', params = [],
          query = ''v=2'', fragment = []\<rparr>"
  by (simp add: url_eval)

lemma filename_logo_v1:
  "get_filename_from_url env ''https://example.com/logo.png?v=1'' ''img_'' = Inr ''img_logo.png''"
  by (simp add: get_filename_from_url_def parse_logo_v1 url_eval)

theorem query_variants_share_file_witness:
  "get_filename_from_url serving_env ''https://example.com/logo.png?v=1'' ''img_''
     = Inr ''img_logo.png''
   \<and> get_filename_from_url serving_env ''https://example.com/logo.png?v=2'' ''img_''
     = Inr ''img_logo.png''
   \<and> (\<exists>st1 st2.
         download_image serving_env ''https://example.com/logo.png?v=1'' example_cloner
           = (Inr ''img_logo.png'', st1)
       \<and> download_image serving_env ''https://example.com/logo.png?v=2'' st1
           = (Inr ''img_logo.png'', st2)
       \<and> requests st2 = [''https://example.com/logo.png?v=1'',
                          ''https://example.com/logo.png?v=2'']
       \<and> files st1 ''output/images/img_logo.png''
           = Some (Bytes ''content of https://example.com/logo.png?v=1'')
       \<and> files st2 ''output/images/img_logo.png''
           = Some (Bytes ''content of https://example.com/logo.png?v=2''))"
proof -
  have p2: "urlparse (check_bracketed_host serving_env) ''https://example.com/logo.png?v=2'' []
      = Inr (\<lparr>scheme = ''https'', netloc = ''example.com'', path = ''/logo.png'', params = [],
          query = ''v=1'', fragment = []\<rparr>\<lparr>query := ''v=2''\<rparr>)"
    by (simp add: parse_logo_v2)
  note inst = query_variants_share_file [OF parse_logo_v1 p2,
      of "''img_''" example_cloner
        "\<lparr>resp_content = ''content of https://example.com/logo.png?v=1'',
          resp_text = ''text of https://example.com/logo.png?v=1''\<rparr>"
        "\<lparr>resp_content = ''content of https://example.com/logo.png?v=2'',
          resp_text = ''text of https://example.com/logo.png?v=2''\<rparr>"
        "''img_logo.png''"]
  have fp: "path_join (path_join (output_dir example_cloner) ''images'') ''img_logo.png''
      = ''output/images/img_logo.png''"
    by (simp add: example_cloner_def path_join_def suffix_to_prefix)
  have env: "http_get serving_env n u
      = Some \<lparr>resp_content = ''content of '' @ u, resp_text = ''text of '' @ u\<rparr>"
      "can_write serving_env x" for n u x
    by (simp_all add: serving_env_def example_env_def)
  have st: "downloaded_images example_cloner = {||}" "requests example_cloner = []"
    by (simp_all add: example_cloner_def)
  have f1: "get_filename_from_url serving_env ''https://example.com/logo.png?v=1'' ''img_''
      = Inr ''img_logo.png''"
    by (rule filename_logo_v1)
  have "get_filename_from_url serving_env ''https://example.com/logo.png?v=1'' ''img_''
      = get_filename_from_url serving_env ''https://example.com/logo.png?v=2'' ''img_''"
    using inst by blast
  with f1 have f2: "get_filename_from_url serving_env ''https://example.com/logo.png?v=2'' ''img_''
      = Inr ''img_logo.png''"
    by simp
  have c: "\<exists>st1 st2.
         download_image serving_env ''https://example.com/logo.png?v=1'' example_cloner
           = (Inr ''img_logo.png'', st1)
       \<and> download_image serving_env ''https://example.com/logo.png?v=2'' st1
           = (Inr ''img_logo.png'', st2)
       \<and> requests st2 = [''https://example.com/logo.png?v=1'',
                          ''https://example.com/logo.png?v=2'']
       \<and> files st1 ''output/images/img_logo.png''
           = Some (Bytes ''content of https://example.com/logo.png?v=1'')
       \<and> files st2 ''output/images/img_logo.png''
           = Some (Bytes ''content of https://example.com/logo.png?v=2'')"
    using inst [THEN conjunct2] by (simp add: fp env st f1)
  from f1 f2 c show ?thesis by (intro conjI)
qed

subsection \<open>References without a network location\<close>

text \<open>A home page whose only link is a \<open>mailto:\<close> reference.\<close>

definition mail_link :: element where
  "mail_link = \<lparr>tag_name = ''a'', attrs = [(''href'', ''mailto:info@example.com'')],
                 rel = None, tag_string = Some ''Write to us''\<rparr>"

definition mail_env :: env where
  "mail_env =
     example_env\<lparr>
       http_get := (\<lambda>n url. if url = ''https://example.com''
                     then Some \<lparr>resp_content = ''home'', resp_text = ''home''\<rparr> else None),
       html_parser := (\<lambda>content. if content = ''home'' then [mail_link] else [])\<rparr>"

lemma parse_mailto:
  "urlparse ok ''mailto:info@example.com'' [] =
     Inr \<lparr>scheme = ''mailto'', netloc = [], path = ''info@example.com'', params = [],
          query = [], fragment = []\<rparr>"
  by (simp add: url_eval)

lemma normalize_mailto:
  "normalize_url env example_cloner ''mailto:info@example.com'' (Some ''https://example.com'')
     = Inr ''mailto:info@example.com''"
  by (simp add: normalize_url_def url_eval)

lemma normalize_url_self:
  "base_url st = base_url st' \<Longrightarrow> normalize_url env st u b = normalize_url env st' u b"
  by (cases b) (simp_all add: normalize_url_def)

lemma is_same_domain_self:
  "domain st = domain st' \<Longrightarrow> is_same_domain env st u = is_same_domain env st' u"
  by (simp add: is_same_domain_def cong: sum.case_cong)

lemma find_links_loop_self:
  assumes b: "base_url st = base_url st'" and d: "domain st = domain st'"
  shows "find_links_loop env st base links acc = find_links_loop env st' base links acc"
  by (induction links arbitrary: acc)
     (simp_all add: normalize_url_self [OF b] is_same_domain_self [OF d]
        cong: sum.case_cong if_cong)

text \<open>
  C10: \<open>_is_same_domain\<close> is true of every URL that parses with an empty network
  location; and a link whose normalised reference is such a URL and contains none of
  the four excluded extensions is added to the internal links. The \<open>mailto:\<close> link
  of the page above is found in this way and put among the pages to visit.
\<close>

theorem empty_netloc_is_internal:
  "(urlparse (check_bracketed_host env) url [] = Inr p \<and> netloc p = []
      \<longrightarrow> is_same_domain env self url = Inr True)
   \<and> (is_a_href link \<and> get_attr ''href'' link = Some href
       \<and> normalize_url env self href (Some base) = Inr url \<and> url \<noteq> []
       \<and> urlparse (check_bracketed_host env) url [] = Inr p \<and> netloc p = []
       \<and> \<not> any_in non_html_exts (lower url)
      \<longrightarrow> find_links_loop env self base (link # links) internal_links
          = find_links_loop env self base links (set_add url internal_links))"
  using is_same_domain_cases [of env url p self] by auto

theorem empty_netloc_is_internal_witness:
  "is_same_domain mail_env example_cloner ''mailto:info@example.com'' = Inr True
   \<and> find_internal_links mail_env example_cloner [mail_link] ''https://example.com''
       = Inr [''mailto:info@example.com'']
   \<and> fst (crawl_step mail_env (\<lambda>n pages. 0) 0 [''https://example.com''] example_cloner)
       = Inr [''mailto:info@example.com'']"
proof -
  note inst = empty_netloc_is_internal
    [of mail_env "''mailto:info@example.com''"
        "\<lparr>scheme = ''mailto'', netloc = [], path = ''info@example.com'', params = [],
          query = [], fragment = []\<rparr>"
        example_cloner mail_link "''mailto:info@example.com''" "''https://example.com''"
        "[]" "[]"]
  have ext: "\<not> any_in non_html_exts (lower ''mailto:info@example.com'')"
    by (simp add: any_in_def non_html_exts_def lower_def lower_char_def is_upper_def)
  have lnk: "is_a_href mail_link" "get_attr ''href'' mail_link = Some ''mailto:info@example.com''"
    by (simp_all add: is_a_href_def get_attr_def mail_link_def)
  have same: "is_same_domain mail_env example_cloner ''mailto:info@example.com'' = Inr True"
    using inst parse_mailto [of "check_bracketed_host mail_env"] by simp
  have links: "find_internal_links mail_env example_cloner [mail_link] ''https://example.com''
      = Inr [''mailto:info@example.com'']"
    using inst parse_mailto [of "check_bracketed_host mail_env"] ext lnk
      normalize_mailto [of mail_env]
    by (simp add: find_internal_links_def set_add_def)
  have none: "\<not> is_stylesheet_link mail_link" "\<not> is_img mail_link" "\<not> has_style mail_link"
    "\<not> is_script_src mail_link" "\<not> is_icon_link mail_link" "\<not> is_style_tag mail_link"
    by (simp_all add: is_stylesheet_link_def is_img_def has_style_def is_script_src_def
        is_icon_link_def is_style_tag_def get_attr_def mail_link_def)
  have name: "get_filename_from_url env ''https://example.com'' ''page_''
      = Inr ''page_index.html''" for env
    by (simp add: get_filename_from_url_def url_eval)
  have page: "fst (scrape_page mail_env ''https://example.com'' True example_cloner)
      = Some [mail_link]"
    "visited_pages (snd (scrape_page mail_env ''https://example.com'' True example_cloner))
      = {|''https://example.com''|}"
    by (simp_all add: scrape_page_def fetch_def Let_def download_resources_def none
        save_html_file_def name mail_env_def example_env_def example_cloner_def)
  have "fst (crawl_step mail_env (\<lambda>n pages. 0) 0 [''https://example.com''] example_cloner)
      = Inr [''mailto:info@example.com'']"
  proof -
    obtain r st1 where sp: "scrape_page mail_env ''https://example.com'' True example_cloner
        = (r, st1)"
      by (cases "scrape_page mail_env ''https://example.com'' True example_cloner")
    from page sp have r: "r = Some [mail_link]"
      and v: "visited_pages st1 = {|''https://example.com''|}"
      by simp_all
    have "find_internal_links mail_env st1 [mail_link] ''https://example.com''
        = find_internal_links mail_env example_cloner [mail_link] ''https://example.com''"
      unfolding find_internal_links_def using scrape_page_keeps [OF sp]
      by (intro find_links_loop_self) simp_all
    with links
    have l1: "find_internal_links mail_env st1 [mail_link] ''https://example.com''
        = Inr [''mailto:info@example.com'']"
      by simp
    have nv: "''https://example.com'' |\<notin>| visited_pages example_cloner"
      by (simp add: example_cloner_def)
    show ?thesis
      using sp r v l1 nv by (simp add: crawl_step_def Let_def set_add_def)
  qed
  with same links show ?thesis by simp
qed



subsection \<open>The crawl loop\<close>

lemma set_fold_set_add: "set (fold set_add xs ys) = set ys \<union> set xs"
  by (induction xs arbitrary: ys) (auto simp: set_add_def)

lemma crawl_step_skip:
  "pages ! (pop n pages mod length pages) |\<in>| visited_pages st \<Longrightarrow>
   crawl_step env pop n pages st
     = (Inr (removeAll (pages ! (pop n pages mod length pages)) pages), st)"
  by (simp add: crawl_step_def Let_def)

lemma crawl_step_none:
  "pages ! (pop n pages mod length pages) |\<notin>| visited_pages st \<Longrightarrow>
   scrape_page env (pages ! (pop n pages mod length pages)) True st = (None, st1) \<Longrightarrow>
   crawl_step env pop n pages st
     = (Inr (removeAll (pages ! (pop n pages mod length pages)) pages), st1)"
  by (simp add: crawl_step_def Let_def)

lemma crawl_step_some:
  "pages ! (pop n pages mod length pages) |\<notin>| visited_pages st \<Longrightarrow>
   scrape_page env (pages ! (pop n pages mod length pages)) True st = (Some soup, st1) \<Longrightarrow>
   crawl_step env pop n pages st
     = (case find_internal_links env st1 soup (pages ! (pop n pages mod length pages)) of
          Inl e \<Rightarrow> (Inl e, st1)
        | Inr new_links \<Rightarrow>
            (Inr (fold set_add (filter (\<lambda>u. u |\<notin>| visited_pages st1) new_links)
                    (removeAll (pages ! (pop n pages mod length pages)) pages)), st1))"
  by (simp add: crawl_step_def Let_def)

lemma crawl_step_visited:
  assumes "crawl_step env pop n pages st = (r, st')"
  shows "visited_pages st' = visited_pages st
       \<or> (pages ! (pop n pages mod length pages) |\<notin>| visited_pages st
          \<and> visited_pages st'
              = finsert (pages ! (pop n pages mod length pages)) (visited_pages st))"
proof -
  let ?url = "pages ! (pop n pages mod length pages)"
  show ?thesis
  proof (cases "?url |\<in>| visited_pages st")
    case True
    with assms show ?thesis by (simp add: crawl_step_skip)
  next
    case False
    obtain r1 st1 where sp: "scrape_page env ?url True st = (r1, st1)"
      by (cases "scrape_page env ?url True st")
    have "st' = st1"
    proof (cases r1)
      case None
      with assms False sp show ?thesis by (simp add: crawl_step_none)
    next
      case (Some soup)
      with assms False sp show ?thesis
        by (cases "find_internal_links env st1 soup ?url") (simp_all add: crawl_step_some)
    qed
    with scrape_page_keeps [OF sp] False show ?thesis by auto
  qed
qed

lemma crawl_step_cap:
  assumes "crawl_step env pop n pages st = (r, st')"
    and "int (fcard (visited_pages st)) < max_pages"
  shows "int (fcard (visited_pages st')) \<le> max_pages"
  using crawl_step_visited [OF assms(1)] assms(2)
  by (auto simp: fcard_finsert_disjoint)

lemma crawl_loop_cap:
  "crawl_loop env pop max_pages n pages st = (r, st') \<Longrightarrow>
   int (fcard (visited_pages st')) \<le> max (int (fcard (visited_pages st))) max_pages"
proof (induction env pop max_pages n pages st rule: crawl_loop.induct)
  case (1 env pop max_pages n pages st)
  show ?case
  proof (cases "pages \<noteq> [] \<and> int (fcard (visited_pages st)) < max_pages")
    case False
    with "1.prems" show ?thesis
      by (simp add: crawl_loop.simps)
  next
    case True
    obtain r1 st1 where cs: "crawl_step env pop n pages st = (r1, st1)"
      by (cases "crawl_step env pop n pages st")
    from crawl_step_cap [OF cs] True
    have c1: "int (fcard (visited_pages st1)) \<le> max_pages" by simp
    show ?thesis
    proof (cases r1)
      case (Inl e)
      with "1.prems" True cs have "st' = st1"
        by (simp add: crawl_loop.simps)
      with c1 show ?thesis by simp
    next
      case (Inr pages')
      with "1.prems" True cs
      have "crawl_loop env pop max_pages (Suc n) pages' st1 = (r, st')"
        by (simp add: crawl_loop.simps)
      from "1.IH" [OF True cs [symmetric] Inr this] c1 show ?thesis
        by simp
    qed
  qed
qed

lemma save_summary_visited:
  "save_summary env st = (r, st') \<Longrightarrow> visited_pages st' = visited_pages st"
  by (auto simp: save_summary_def Let_def split: if_splits)


lemma crawl_loop_next:
  "pages \<noteq> [] \<Longrightarrow> int (fcard (visited_pages st)) < max_pages \<Longrightarrow>
   crawl_step env pop n pages st = (Inr pages', st1) \<Longrightarrow>
   crawl_loop env pop max_pages n pages st = crawl_loop env pop max_pages (Suc n) pages' st1"
  by (subst crawl_loop.simps) simp

lemma crawl_loop_stop:
  "pages = [] \<or> \<not> int (fcard (visited_pages st)) < max_pages \<Longrightarrow>
   crawl_loop env pop max_pages n pages st = (Inr (), st)"
  by (subst crawl_loop.simps) auto

text \<open>A tag that none of the loops of \<open>scrape_page\<close> selects.\<close>

definition plain :: "element \<Rightarrow> bool" where
  "plain e \<longleftrightarrow>
     \<not> is_style_tag e \<and> \<not> is_stylesheet_link e \<and> \<not> is_img e \<and> \<not> has_style e
     \<and> \<not> is_script_src e \<and> \<not> is_icon_link e"

lemma for_each_none:
  "list_all (\<lambda>e. \<not> sel e) soup \<Longrightarrow> for_each sel body soup st = (Inr soup, st)"
  by (induction soup) simp_all



lemma sub_tokens_lits:
  "sub_tokens env c (map Lit s @ ts) st =
     (case sub_tokens env c ts st of
        (Inl e, st1) \<Rightarrow> (Inl e, st1)
      | (Inr out, st1) \<Rightarrow> (Inr (s @ out), st1))"
  by (induction s) (auto split: prod.splits sum.splits)

lemma extract_inline_css_none:
  "list_all (\<lambda>e. \<not> is_style_tag e) soup \<Longrightarrow> extract_inline_css soup st = st"
  by (induction soup) simp_all

lemma download_resources_plain:
  assumes "list_all plain soup"
  shows "download_resources env url soup st = (Inr soup, st)"
proof -
  have "list_all (\<lambda>e. \<not> is_stylesheet_link e) soup" "list_all (\<lambda>e. \<not> is_img e) soup"
    "list_all (\<lambda>e. \<not> has_style e) soup" "list_all (\<lambda>e. \<not> is_script_src e) soup"
    "list_all (\<lambda>e. \<not> is_icon_link e) soup"
    using assms by (simp_all add: list_all_iff plain_def)
  then show ?thesis
    by (simp add: download_resources_def for_each_none)
qed

lemma scrape_page_plain:
  assumes "url |\<notin>| visited_pages st"
    and "http_get env (length (requests st)) url = Some resp"
    and "html_parser env (resp_content resp) = soup"
    and "list_all plain soup"
    and "get_filename_from_url env url ''page_'' = Inr f"
    and "can_write env (path_join (path_join (output_dir st) ''html'') f)"
  shows "scrape_page env url True st =
     (Some soup,
      st\<lparr>requests := requests st @ [url],
         visited_pages := finsert url (visited_pages st),
         files := (files st)(path_join (path_join (output_dir st) ''html'') f
                    \<mapsto> Text (prettify env soup))\<rparr>)"
proof -
  have "list_all (\<lambda>e. \<not> is_style_tag e) soup"
    using assms(4) by (simp add: list_all_iff plain_def)
  then show ?thesis
    using assms
    by (simp add: scrape_page_fetched extract_inline_css_none download_resources_plain
        save_html_file_def Let_def)
qed

text \<open>\<open><a href=...>\<close>\<close>

definition anchor :: "string \<Rightarrow> element" where
  "anchor href = \<lparr>tag_name = ''a'', attrs = [(''href'', href)], rel = None, tag_string = None\<rparr>"

lemma plain_anchor: "plain (anchor href)"
  by (simp add: plain_def anchor_def is_style_tag_def is_stylesheet_link_def is_img_def
      has_style_def is_script_src_def is_icon_link_def get_attr_def)

lemma anchor_href: "is_a_href (anchor href)" "get_attr ''href'' (anchor href) = Some href"
  by (simp_all add: is_a_href_def get_attr_def anchor_def)

text \<open>Following one link that is internal, and one whose target is already known.\<close>

lemma find_links_loop_anchor:
  assumes "normalize_url env self href (Some base) = Inr url" and "url \<noteq> []"
    and "is_same_domain env self url = Inr True"
    and "\<not> any_in non_html_exts (lower url)"
  shows "find_links_loop env self base (anchor href # links) acc
       = find_links_loop env self base links (set_add url acc)"
  using assms by (simp add: anchor_href)

subsection \<open>A site with a cycle\<close>

text \<open>
  A site of four pages with a cycle: the home page links to \<open>/b\<close> and \<open>/c\<close>, \<open>/b\<close>
  back to the home page, \<open>/c\<close> to \<open>/d\<close> and to the home page.
\<close>

definition site_env :: env where
  "site_env =
     example_env\<lparr>
       http_get := (\<lambda>n url.
          if url \<in> set [''https://example.com'', ''https://example.com/b'',
                         ''https://example.com/c'', ''https://example.com/d'']
          then Some \<lparr>resp_content = url, resp_text = url\<rparr> else None),
       html_parser := (\<lambda>content.
          if content = ''https://example.com''
          then [anchor ''https://example.com/b'', anchor ''https://example.com/c'']
          else if content = ''https://example.com/b'' then [anchor ''https://example.com'']
          else if content = ''https://example.com/c''
          then [anchor ''https://example.com/d'', anchor ''https://example.com'']
          else [])\<rparr>"

lemma normalize_site:
  "normalize_url env self ''https://example.com/b'' (Some ''https://example.com'')
     = Inr ''https://example.com/b''"
  "normalize_url env self ''https://example.com/c'' (Some ''https://example.com'')
     = Inr ''https://example.com/c''"
  "normalize_url env self ''https://example.com'' (Some ''https://example.com/b'')
     = Inr ''https://example.com''"
  "normalize_url env self ''https://example.com/d'' (Some ''https://example.com/c'')
     = Inr ''https://example.com/d''"
  "normalize_url env self ''https://example.com'' (Some ''https://example.com/c'')
     = Inr ''https://example.com''"
  by (simp_all add: normalize_url_def url_eval)

lemma same_domain_site:
  "domain self = ''example.com'' \<Longrightarrow>
     is_same_domain env self ''https://example.com'' = Inr True"
  "domain self = ''example.com'' \<Longrightarrow>
     is_same_domain env self ''https://example.com/b'' = Inr True"
  "domain self = ''example.com'' \<Longrightarrow>
     is_same_domain env self ''https://example.com/c'' = Inr True"
  "domain self = ''example.com'' \<Longrightarrow>
     is_same_domain env self ''https://example.com/d'' = Inr True"
  by (simp_all add: is_same_domain_def url_eval)

lemma html_site:
  "\<not> any_in non_html_exts (lower ''https://example.com'')"
  "\<not> any_in non_html_exts (lower ''https://example.com/b'')"
  "\<not> any_in non_html_exts (lower ''https://example.com/c'')"
  "\<not> any_in non_html_exts (lower ''https://example.com/d'')"
  by (simp_all add: any_in_def non_html_exts_def lower_def lower_char_def is_upper_def)

lemma filename_site:
  "get_filename_from_url env ''https://example.com'' ''page_'' = Inr ''page_index.html''"
  "get_filename_from_url env ''https://example.com/b'' ''page_'' = Inr ''page_b.html''"
  "get_filename_from_url env ''https://example.com/c'' ''page_'' = Inr ''page_c.html''"
  "get_filename_from_url env ''https://example.com/d'' ''page_'' = Inr ''page_d.html''"
  by (simp_all add: get_filename_from_url_def url_eval)

lemma links_site:
  assumes "domain self = ''example.com''"
  shows "find_internal_links env self
           [anchor ''https://example.com/b'', anchor ''https://example.com/c'']
           ''https://example.com''
         = Inr [''https://example.com/b'', ''https://example.com/c'']"
    and "find_internal_links env self [anchor ''https://example.com'']
           ''https://example.com/b'' = Inr [''https://example.com'']"
    and "find_internal_links env self
           [anchor ''https://example.com/d'', anchor ''https://example.com'']
           ''https://example.com/c''
         = Inr [''https://example.com/d'', ''https://example.com'']"
    and "find_internal_links env self [] base = Inr []"
  by (simp_all add: find_internal_links_def anchor_href normalize_site
      same_domain_site [OF assms] html_site set_add_def)

text \<open>The state after a page without resources was scraped and saved.\<close>

definition after_page :: "string \<Rightarrow> string \<Rightarrow> cloner \<Rightarrow> cloner" where
  "after_page url file st =
     st\<lparr>requests := requests st @ [url],
        visited_pages := finsert url (visited_pages st),
        files := (files st)(file \<mapsto> Text [])\<rparr>"

lemma after_page_simps [simp]:
  "requests (after_page url file st) = requests st @ [url]"
  "visited_pages (after_page url file st) = finsert url (visited_pages st)"
  "domain (after_page url file st) = domain st"
  "base_url (after_page url file st) = base_url st"
  "output_dir (after_page url file st) = output_dir st"
  "inline_styles (after_page url file st) = inline_styles st"
  by (simp_all add: after_page_def)

lemma example_cloner_simps [simp]:
  "requests example_cloner = []"
  "visited_pages example_cloner = {||}"
  "domain example_cloner = ''example.com''"
  "base_url example_cloner = ''https://example.com''"
  "output_dir example_cloner = ''output''"
  "inline_styles example_cloner = []"
  by (simp_all add: example_cloner_def)

lemma site_env_simps [simp]:
  "can_write site_env file"
  "prettify site_env soup = []"
  "http_get site_env n ''https://example.com''
     = Some \<lparr>resp_content = ''https://example.com'', resp_text = ''https://example.com''\<rparr>"
  "http_get site_env n ''https://example.com/b''
     = Some \<lparr>resp_content = ''https://example.com/b'', resp_text = ''https://example.com/b''\<rparr>"
  "http_get site_env n ''https://example.com/c''
     = Some \<lparr>resp_content = ''https://example.com/c'', resp_text = ''https://example.com/c''\<rparr>"
  "http_get site_env n ''https://example.com/d''
     = Some \<lparr>resp_content = ''https://example.com/d'', resp_text = ''https://example.com/d''\<rparr>"
  "html_parser site_env ''https://example.com''
     = [anchor ''https://example.com/b'', anchor ''https://example.com/c'']"
  "html_parser site_env ''https://example.com/b'' = [anchor ''https://example.com'']"
  "html_parser site_env ''https://example.com/c''
     = [anchor ''https://example.com/d'', anchor ''https://example.com'']"
  "html_parser site_env ''https://example.com/d'' = []"
  by (simp_all add: site_env_def example_env_def)

lemma scrape_site:
  assumes "output_dir st = ''output''"
  shows "''https://example.com'' |\<notin>| visited_pages st \<Longrightarrow>
      scrape_page site_env ''https://example.com'' True st
        = (Some [anchor ''https://example.com/b'', anchor ''https://example.com/c''],
           after_page ''https://example.com'' ''output/html/page_index.html'' st)"
    and "''https://example.com/b'' |\<notin>| visited_pages st \<Longrightarrow>
      scrape_page site_env ''https://example.com/b'' True st
        = (Some [anchor ''https://example.com''],
           after_page ''https://example.com/b'' ''output/html/page_b.html'' st)"
    and "''https://example.com/c'' |\<notin>| visited_pages st \<Longrightarrow>
      scrape_page site_env ''https://example.com/c'' True st
        = (Some [anchor ''https://example.com/d'', anchor ''https://example.com''],
           after_page ''https://example.com/c'' ''output/html/page_c.html'' st)"
    and "''https://example.com/d'' |\<notin>| visited_pages st \<Longrightarrow>
      scrape_page site_env ''https://example.com/d'' True st
        = (Some [], after_page ''https://example.com/d'' ''output/html/page_d.html'' st)"
proof -
  have p: "path_join (path_join ''output'' ''html'') f = ''output/html/'' @ f"
    if "\<not> prefix ''/'' f" for f
    using that by (simp add: path_join_def suffix_to_prefix)
  show "''https://example.com'' |\<notin>| visited_pages st \<Longrightarrow>
      scrape_page site_env ''https://example.com'' True st
        = (Some [anchor ''https://example.com/b'', anchor ''https://example.com/c''],
           after_page ''https://example.com'' ''output/html/page_index.html'' st)"
    using scrape_page_plain [of "''https://example.com''" st site_env
        "\<lparr>resp_content = ''https://example.com'', resp_text = ''https://example.com''\<rparr>"
        "[anchor ''https://example.com/b'', anchor ''https://example.com/c'']"
        "''page_index.html''"]
    by (simp add: assms plain_anchor filename_site p after_page_def)
  show "''https://example.com/b'' |\<notin>| visited_pages st \<Longrightarrow>
      scrape_page site_env ''https://example.com/b'' True st
        = (Some [anchor ''https://example.com''],
           after_page ''https://example.com/b'' ''output/html/page_b.html'' st)"
    using scrape_page_plain [of "''https://example.com/b''" st site_env
        "\<lparr>resp_content = ''https://example.com/b'', resp_text = ''https://example.com/b''\<rparr>"
        "[anchor ''https://example.com'']" "''page_b.html''"]
    by (simp add: assms plain_anchor filename_site p after_page_def)
  show "''https://example.com/c'' |\<notin>| visited_pages st \<Longrightarrow>
      scrape_page site_env ''https://example.com/c'' True st
        = (Some [anchor ''https://example.com/d'', anchor ''https://example.com''],
           after_page ''https://example.com/c'' ''output/html/page_c.html'' st)"
    using scrape_page_plain [of "''https://example.com/c''" st site_env
        "\<lparr>resp_content = ''https://example.com/c'', resp_text = ''https://example.com/c''\<rparr>"
        "[anchor ''https://example.com/d'', anchor ''https://example.com'']" "''page_c.html''"]
    by (simp add: assms plain_anchor filename_site p after_page_def)
  show "''https://example.com/d'' |\<notin>| visited_pages st \<Longrightarrow>
      scrape_page site_env ''https://example.com/d'' True st
        = (Some [], after_page ''https://example.com/d'' ''output/html/page_d.html'' st)"
    using scrape_page_plain [of "''https://example.com/d''" st site_env
        "\<lparr>resp_content = ''https://example.com/d'', resp_text = ''https://example.com/d''\<rparr>"
        "[]" "''page_d.html''"]
    by (simp add: assms filename_site p after_page_def)
qed

text \<open>A \<open>pop\<close> that takes the page added last.\<close>

definition lifo :: "nat \<Rightarrow> string list \<Rightarrow> nat" where
  "lifo n pages = length pages - 1"

definition site_s1 :: cloner where
  "site_s1 = after_page ''https://example.com'' ''output/html/page_index.html'' example_cloner"

definition site_s2 :: cloner where
  "site_s2 = after_page ''https://example.com/c'' ''output/html/page_c.html'' site_s1"

definition site_s3 :: cloner where
  "site_s3 = after_page ''https://example.com/d'' ''output/html/page_d.html'' site_s2"

definition site_s4 :: cloner where
  "site_s4 = after_page ''https://example.com/b'' ''output/html/page_b.html'' site_s3"

lemma lifo_steps:
  "crawl_step site_env lifo n [''https://example.com''] example_cloner
     = (Inr [''https://example.com/b'', ''https://example.com/c''], site_s1)"
  "crawl_step site_env lifo n [''https://example.com/b'', ''https://example.com/c''] site_s1
     = (Inr [''https://example.com/b'', ''https://example.com/d''], site_s2)"
  "crawl_step site_env lifo n [''https://example.com/b'', ''https://example.com/d''] site_s2
     = (Inr [''https://example.com/b''], site_s3)"
  "crawl_step site_env lifo n [''https://example.com/b''] site_s3 = (Inr [], site_s4)"
  by (simp_all add: crawl_step_def Let_def lifo_def scrape_site links_site set_add_def
      site_s1_def site_s2_def site_s3_def site_s4_def)

lemma fcard_site [simp]:
  "fcard (visited_pages site_s1) = 1" "fcard (visited_pages site_s2) = 2"
  "fcard (visited_pages site_s3) = 3" "fcard (visited_pages site_s4) = 4"
  by (simp_all add: site_s1_def site_s2_def site_s3_def site_s4_def fcard_finsert_if)

lemma lifo_run:
  "crawl_loop site_env lifo 50 0 [''https://example.com''] example_cloner = (Inr (), site_s4)"
  by (simp add: crawl_loop_next [OF _ _ lifo_steps(1)] crawl_loop_next [OF _ _ lifo_steps(2)]
      crawl_loop_next [OF _ _ lifo_steps(3)] crawl_loop_next [OF _ _ lifo_steps(4)]
      crawl_loop_stop fcard_fempty)

lemma requests_site_s4:
  "requests site_s4 = [''https://example.com'', ''https://example.com/c'',
     ''https://example.com/d'', ''https://example.com/b'']"
  by (simp add: site_s1_def site_s2_def site_s3_def site_s4_def)

lemma save_summary_requests:
  "requests (snd (save_summary env st)) = requests st"
  by (simp add: save_summary_def Let_def)

text \<open>
  C4, as stated: the pages are dequeued first-in-first-out, so every page at link
  depth \<open>d\<close> is visited before any page at depth \<open>d + 1\<close>. The frontier is a
  \<open>set\<close> and \<open>set.pop()\<close> takes an arbitrary element. On the site above, \<open>/b\<close>
  and \<open>/c\<close> are at depth 1 and \<open>/d\<close>, linked from \<open>/c\<close> only, at depth 2; when
  \<open>pop\<close> takes the page added last, \<open>/d\<close> is fetched before \<open>/b\<close>.
\<close>

theorem pop_order_is_not_breadth_first:
  "html_parser site_env ''https://example.com''
     = [anchor ''https://example.com/b'', anchor ''https://example.com/c'']
   \<and> html_parser site_env ''https://example.com/c''
     = [anchor ''https://example.com/d'', anchor ''https://example.com'']
   \<and> requests (snd (scrape_full_site site_env lifo 50 example_cloner))
     = [''https://example.com'', ''https://example.com/c'', ''https://example.com/d'',
        ''https://example.com/b'']"
  by (simp add: scrape_full_site_def lifo_run save_summary_requests requests_site_s4)

text \<open>
  C4, amended: the frontier is an unordered set. Each iteration takes one of its
  elements, whichever \<open>pop\<close> chooses, and every element can be the one chosen; a
  page already visited is dropped without a fetch; after a page was scraped and its
  links were found, the frontier is what was left of it together with the links that
  are not yet visited. No order of visits is promised.
\<close>

theorem crawl_step_takes_any_page:
  "pages \<noteq> [] \<longrightarrow>
     pages ! (pop n pages mod length pages) \<in> set pages
   \<and> (pages ! (pop n pages mod length pages) |\<in>| visited_pages st
        \<longrightarrow> crawl_step env pop n pages st
            = (Inr (removeAll (pages ! (pop n pages mod length pages)) pages), st))
   \<and> (pages ! (pop n pages mod length pages) |\<notin>| visited_pages st
       \<and> scrape_page env (pages ! (pop n pages mod length pages)) True st = (Some soup, st1)
       \<and> find_internal_links env st1 soup (pages ! (pop n pages mod length pages))
           = Inr new_links
        \<longrightarrow> (\<exists>pages'. crawl_step env pop n pages st = (Inr pages', st1)
              \<and> set pages' = (set pages - {pages ! (pop n pages mod length pages)})
                    \<union> {u \<in> set new_links. u |\<notin>| visited_pages st1}))
   \<and> (\<forall>i < length pages. \<exists>pop'. pages ! (pop' n pages mod length pages) = pages ! i)"
proof (intro impI conjI allI)
  assume ne: "pages \<noteq> []"
  show "pages ! (pop n pages mod length pages) \<in> set pages"
    using ne by simp
  show "crawl_step env pop n pages st
      = (Inr (removeAll (pages ! (pop n pages mod length pages)) pages), st)"
    if "pages ! (pop n pages mod length pages) |\<in>| visited_pages st"
    using that by (rule crawl_step_skip)
  show "\<exists>pages'. crawl_step env pop n pages st = (Inr pages', st1)
      \<and> set pages' = (set pages - {pages ! (pop n pages mod length pages)})
            \<union> {u \<in> set new_links. u |\<notin>| visited_pages st1}"
    if "pages ! (pop n pages mod length pages) |\<notin>| visited_pages st
       \<and> scrape_page env (pages ! (pop n pages mod length pages)) True st = (Some soup, st1)
       \<and> find_internal_links env st1 soup (pages ! (pop n pages mod length pages))
           = Inr new_links"
    using that by (auto simp: crawl_step_some set_fold_set_add)
  show "\<exists>pop'. pages ! (pop' n pages mod length pages) = pages ! i" if "i < length pages" for i
    using that by (intro exI [of _ "\<lambda>n pages. i"]) simp
qed

theorem crawl_step_takes_any_page_witness:
  "[''https://example.com/b'', ''https://example.com/c'']
      ! (lifo 1 [''https://example.com/b'', ''https://example.com/c''] mod 2)
     = ''https://example.com/c''
   \<and> (\<exists>pages'.
        crawl_step site_env lifo 1 [''https://example.com/b'', ''https://example.com/c'']
          site_s1 = (Inr pages', site_s2)
      \<and> set pages' = {''https://example.com/b'', ''https://example.com/d''})"
proof -
  let ?pages = "[''https://example.com/b'', ''https://example.com/c'']"
  let ?soup = "[anchor ''https://example.com/d'', anchor ''https://example.com'']"
  let ?links = "[''https://example.com/d'', ''https://example.com'']"
  let ?u = "?pages ! (lifo 1 ?pages mod length ?pages)"
  note inst = crawl_step_takes_any_page
    [of ?pages lifo 1 site_s1 site_env ?soup site_s2 ?links]
  have u: "?u = ''https://example.com/c''"
    by (simp add: lifo_def)
  have ne: "?pages \<noteq> []"
    by simp
  have nv: "?u |\<notin>| visited_pages site_s1"
    unfolding u by (simp add: site_s1_def)
  have sp: "scrape_page site_env ?u True site_s1 = (Some ?soup, site_s2)"
    unfolding u by (simp add: scrape_site site_s1_def site_s2_def)
  have links: "find_internal_links site_env site_s2 ?soup ?u = Inr ?links"
    unfolding u by (simp add: links_site site_s1_def site_s2_def)
  from inst ne nv sp links obtain pages' where
    step: "crawl_step site_env lifo 1 ?pages site_s1 = (Inr pages', site_s2)"
    and pages': "set pages' = (set ?pages - {?u}) \<union> {u \<in> set ?links. u |\<notin>| visited_pages site_s2}"
    by blast
  have "(set ?pages - {?u}) \<union> {u \<in> set ?links. u |\<notin>| visited_pages site_s2}
      = {''https://example.com/b'', ''https://example.com/d''}"
    unfolding u by (auto simp: site_s1_def site_s2_def)
  with pages' have "set pages' = {''https://example.com/b'', ''https://example.com/d''}"
    by (rule trans)
  with step have "\<exists>pages'.
        crawl_step site_env lifo 1 ?pages site_s1 = (Inr pages', site_s2)
      \<and> set pages' = {''https://example.com/b'', ''https://example.com/d''}"
    by blast
  moreover have "?pages ! (lifo 1 ?pages mod 2) = ''https://example.com/c''"
    by (simp add: lifo_def)
  ultimately show ?thesis by (intro conjI)
qed

text \<open>
  C2: whatever the start state, the choices of \<open>pop\<close>, the responses and the links,
  \<open>scrape_full_site\<close> leaves at most \<open>max_pages\<close> pages visited (or as many as
  were visited before, if that was more); and every iteration of its loop that goes on
  decreases the pair (pages still allowed, pages to visit) in the lexicographic order,
  which is well-founded, so the loop ends after finitely many iterations. This is what
  the termination proof of \<open>crawl_loop\<close> rests on.
\<close>

theorem crawl_is_capped_and_ends:
  "(scrape_full_site env pop max_pages st = (r, st')
      \<longrightarrow> int (fcard (visited_pages st')) \<le> max (int (fcard (visited_pages st))) max_pages)
   \<and> (pages \<noteq> [] \<and> int (fcard (visited_pages st)) < max_pages
       \<and> crawl_step env pop n pages st = (Inr pages', st1)
      \<longrightarrow> (crawl_measure max_pages pages' st1, crawl_measure max_pages pages st)
            \<in> less_than <*lex*> less_than)
   \<and> wf (less_than <*lex*> less_than)"
proof (intro conjI impI)
  assume a: "scrape_full_site env pop max_pages st = (r, st')"
  obtain r1 st1 where l: "crawl_loop env pop max_pages 0 [base_url st] st = (r1, st1)"
    by (cases "crawl_loop env pop max_pages 0 [base_url st] st")
  from a l have "visited_pages st' = visited_pages st1"
    by (cases r1) (auto simp: scrape_full_site_def dest: save_summary_visited)
  with crawl_loop_cap [OF l]
  show "int (fcard (visited_pages st')) \<le> max (int (fcard (visited_pages st))) max_pages"
    by simp
next
  assume "pages \<noteq> [] \<and> int (fcard (visited_pages st)) < max_pages
       \<and> crawl_step env pop n pages st = (Inr pages', st1)"
  then show "(crawl_measure max_pages pages' st1, crawl_measure max_pages pages st)
            \<in> less_than <*lex*> less_than"
    by (auto intro: crawl_step_decreases)
next
  show "wf (less_than <*lex*> less_than)"
    by (intro wf_lex_prod wf_less_than)
qed

lemma lifo_run_capped:
  "crawl_loop site_env lifo 2 0 [''https://example.com''] example_cloner = (Inr (), site_s2)"
  by (simp add: crawl_loop_next [OF _ _ lifo_steps(1)] crawl_loop_next [OF _ _ lifo_steps(2)]
      crawl_loop_stop fcard_fempty)

theorem crawl_is_capped_and_ends_witness:
  "visited_pages (snd (scrape_full_site site_env lifo 2 example_cloner))
     = {|''https://example.com/c'', ''https://example.com''|}
   \<and> fcard (visited_pages (snd (scrape_full_site site_env lifo 2 example_cloner))) \<le> 2
   \<and> crawl_measure 2 [''https://example.com''] example_cloner = (2, 1)
   \<and> crawl_measure 2 [''https://example.com/b'', ''https://example.com/c''] site_s1 = (1, 2)
   \<and> ((1, 2), (2, 1)) \<in> less_than <*lex*> less_than"
proof -
  obtain r st' where run: "scrape_full_site site_env lifo 2 example_cloner = (r, st')"
    by (cases "scrape_full_site site_env lifo 2 example_cloner")
  note inst = crawl_is_capped_and_ends
    [of site_env lifo 2 example_cloner r st' "[''https://example.com'']" 0
        "[''https://example.com/b'', ''https://example.com/c'']" site_s1]
  have v: "visited_pages st' = {|''https://example.com/c'', ''https://example.com''|}"
    using run save_summary_visited [of site_env site_s2 r st']
    by (simp add: scrape_full_site_def lifo_run_capped site_s1_def site_s2_def)
  have cap: "fcard (visited_pages st') \<le> 2"
    using inst run by (simp add: fcard_fempty)
  have m: "crawl_measure 2 [''https://example.com''] example_cloner = (2, 1)"
    "crawl_measure 2 [''https://example.com/b'', ''https://example.com/c''] site_s1 = (1, 2)"
    by (simp_all add: crawl_measure_def fcard_fempty)
  have "((1, 2), (2, 1)) \<in> less_than <*lex*> (less_than :: (nat \<times> nat) set)"
    using inst lifo_steps(1) [of 0] by (simp add: m fcard_fempty)
  with v cap m run show ?thesis by simp
qed

subsection \<open>A page that cannot be fetched\<close>

text \<open>A \<open>pop\<close> that takes the page added first.\<close>

definition fifo :: "nat \<Rightarrow> string list \<Rightarrow> nat" where
  "fifo n pages = 0"

text \<open>
  The home page links to \<open>/b\<close> and \<open>/c\<close>; \<open>/b\<close> answers with an error status
  every time; \<open>/c\<close> links to \<open>/b\<close>.
\<close>

definition broken_env :: env where
  "broken_env =
     example_env\<lparr>
       http_get := (\<lambda>n url.
          if url \<in> set [''https://example.com'', ''https://example.com/c'']
          then Some \<lparr>resp_content = url, resp_text = url\<rparr> else None),
       html_parser := (\<lambda>content.
          if content = ''https://example.com''
          then [anchor ''https://example.com/b'', anchor ''https://example.com/c'']
          else if content = ''https://example.com/c'' then [anchor ''https://example.com/b'']
          else [])\<rparr>"

lemma broken_env_simps [simp]:
  "can_write broken_env file"
  "prettify broken_env soup = []"
  "http_get broken_env n ''https://example.com''
     = Some \<lparr>resp_content = ''https://example.com'', resp_text = ''https://example.com''\<rparr>"
  "http_get broken_env n ''https://example.com/b'' = None"
  "http_get broken_env n ''https://example.com/c''
     = Some \<lparr>resp_content = ''https://example.com/c'', resp_text = ''https://example.com/c''\<rparr>"
  "html_parser broken_env ''https://example.com''
     = [anchor ''https://example.com/b'', anchor ''https://example.com/c'']"
  "html_parser broken_env ''https://example.com/c'' = [anchor ''https://example.com/b'']"
  by (simp_all add: broken_env_def example_env_def)

lemma normalize_b_from_c:
  "normalize_url env self ''https://example.com/b'' (Some ''https://example.com/c'')
     = Inr ''https://example.com/b''"
  by (simp add: normalize_url_def url_eval)

lemma links_broken:
  "domain self = ''example.com'' \<Longrightarrow>
   find_internal_links env self [anchor ''https://example.com/b''] ''https://example.com/c''
     = Inr [''https://example.com/b'']"
  by (simp add: find_internal_links_def anchor_href normalize_b_from_c same_domain_site
      html_site set_add_def)

lemma scrape_broken:
  assumes "output_dir st = ''output''"
  shows "''https://example.com'' |\<notin>| visited_pages st \<Longrightarrow>
      scrape_page broken_env ''https://example.com'' True st
        = (Some [anchor ''https://example.com/b'', anchor ''https://example.com/c''],
           after_page ''https://example.com'' ''output/html/page_index.html'' st)"
    and "''https://example.com/c'' |\<notin>| visited_pages st \<Longrightarrow>
      scrape_page broken_env ''https://example.com/c'' True st
        = (Some [anchor ''https://example.com/b''],
           after_page ''https://example.com/c'' ''output/html/page_c.html'' st)"
proof -
  have p: "path_join (path_join ''output'' ''html'') f = ''output/html/'' @ f"
    if "\<not> prefix ''/'' f" for f
    using that by (simp add: path_join_def suffix_to_prefix)
  show "''https://example.com'' |\<notin>| visited_pages st \<Longrightarrow>
      scrape_page broken_env ''https://example.com'' True st
        = (Some [anchor ''https://example.com/b'', anchor ''https://example.com/c''],
           after_page ''https://example.com'' ''output/html/page_index.html'' st)"
    using scrape_page_plain [of "''https://example.com''" st broken_env
        "\<lparr>resp_content = ''https://example.com'', resp_text = ''https://example.com''\<rparr>"
        "[anchor ''https://example.com/b'', anchor ''https://example.com/c'']"
        "''page_index.html''"]
    by (simp add: assms plain_anchor filename_site p after_page_def)
  show "''https://example.com/c'' |\<notin>| visited_pages st \<Longrightarrow>
      scrape_page broken_env ''https://example.com/c'' True st
        = (Some [anchor ''https://example.com/b''],
           after_page ''https://example.com/c'' ''output/html/page_c.html'' st)"
    using scrape_page_plain [of "''https://example.com/c''" st broken_env
        "\<lparr>resp_content = ''https://example.com/c'', resp_text = ''https://example.com/c''\<rparr>"
        "[anchor ''https://example.com/b'']" "''page_c.html''"]
    by (simp add: assms plain_anchor filename_site p after_page_def)
qed

definition broken_s1 :: cloner where
  "broken_s1 = after_page ''https://example.com'' ''output/html/page_index.html'' example_cloner"

definition broken_s2 :: cloner where
  "broken_s2 = broken_s1\<lparr>requests := requests broken_s1 @ [''https://example.com/b'']\<rparr>"

definition broken_s3 :: cloner where
  "broken_s3 = after_page ''https://example.com/c'' ''output/html/page_c.html'' broken_s2"

definition broken_s4 :: cloner where
  "broken_s4 = broken_s3\<lparr>requests := requests broken_s3 @ [''https://example.com/b'']\<rparr>"

lemma fifo_steps:
  "crawl_step broken_env fifo n [''https://example.com''] example_cloner
     = (Inr [''https://example.com/b'', ''https://example.com/c''], broken_s1)"
  "crawl_step broken_env fifo n [''https://example.com/b'', ''https://example.com/c''] broken_s1
     = (Inr [''https://example.com/c''], broken_s2)"
  "crawl_step broken_env fifo n [''https://example.com/c''] broken_s2
     = (Inr [''https://example.com/b''], broken_s3)"
  "crawl_step broken_env fifo n [''https://example.com/b''] broken_s3 = (Inr [], broken_s4)"
  by (simp_all add: crawl_step_def Let_def fifo_def scrape_broken links_site links_broken
      scrape_page_fetch_failed set_add_def
      broken_s1_def broken_s2_def broken_s3_def broken_s4_def)

lemma fcard_broken [simp]:
  "fcard (visited_pages broken_s1) = 1" "fcard (visited_pages broken_s2) = 1"
  "fcard (visited_pages broken_s3) = 2" "fcard (visited_pages broken_s4) = 2"
  by (simp_all add: broken_s1_def broken_s2_def broken_s3_def broken_s4_def fcard_finsert_if)

lemma fifo_run:
  "crawl_loop broken_env fifo 50 0 [''https://example.com''] example_cloner
     = (Inr (), broken_s4)"
  by (simp add: crawl_loop_next [OF _ _ fifo_steps(1)] crawl_loop_next [OF _ _ fifo_steps(2)]
      crawl_loop_next [OF _ _ fifo_steps(3)] crawl_loop_next [OF _ _ fifo_steps(4)]
      crawl_loop_stop fcard_fempty)

lemma broken_s4_simps:
  "requests broken_s4 = [''https://example.com'', ''https://example.com/b'',
     ''https://example.com/c'', ''https://example.com/b'']"
  "visited_pages broken_s4 = {|''https://example.com/c'', ''https://example.com''|}"
  "inline_styles broken_s4 = []" "output_dir broken_s4 = ''output''"
  "downloaded_images broken_s4 = {||}" "downloaded_css broken_s4 = {||}"
  "downloaded_js broken_s4 = {||}" "base_url broken_s4 = ''https://example.com''"
  by (simp_all add: broken_s1_def broken_s2_def broken_s3_def broken_s4_def after_page_def
      example_cloner_def)

text \<open>
  C1, as stated: a page whose fetch fails is added to the visited set, its failure is
  recorded in the summary, and it is never fetched again in the run. In the run
  below \<open>/b\<close> fails at the second request. It is not in \<open>visited_pages\<close> at the end,
  the summary written by the run does not mention it, and it is requested a second
  time after \<open>/c\<close> linked to it.
\<close>

theorem failed_page_is_not_recorded:
  "http_get broken_env 1 ''https://example.com/b'' = None
   \<and> http_get broken_env 3 ''https://example.com/b'' = None
   \<and> requests (snd (scrape_full_site broken_env fifo 50 example_cloner))
       = [''https://example.com'', ''https://example.com/b'', ''https://example.com/c'',
          ''https://example.com/b'']
   \<and> ''https://example.com/b''
       |\<notin>| visited_pages (snd (scrape_full_site broken_env fifo 50 example_cloner))
   \<and> files (snd (scrape_full_site broken_env fifo 50 example_cloner))
         ''output/scrape_summary.json''
       = Some (Json \<lparr>sum_base_url = ''https://example.com'', pages_scraped = 2,
           sum_visited_pages = {|''https://example.com/c'', ''https://example.com''|},
           images_downloaded = 0, image_urls = {||},
           css_files_downloaded = 0, css_urls = {||},
           js_files_downloaded = 0, js_urls = {||}, inline_styles_count = 0\<rparr>)"
  by (simp add: scrape_full_site_def fifo_run save_summary_def Let_def make_summary_def
      broken_s4_simps path_join_def suffix_to_prefix fcard_finsert_if fcard_fempty)

text \<open>
  C1, amended: when the fetch of a page not yet visited fails, \<open>scrape_page\<close>
  returns \<open>None\<close> and changes nothing but the log of requests: the URL is not added
  to \<open>visited_pages\<close> and nothing is recorded. The loop of \<open>scrape_full_site\<close> goes
  on with the other pages, the URL being taken out of the pages to visit.
\<close>

theorem failed_page_changes_nothing:
  "(url |\<notin>| visited_pages st \<and> http_get env (length (requests st)) url = None
      \<longrightarrow> scrape_page env url save_html st
          = (None, st\<lparr>requests := requests st @ [url]\<rparr>))
   \<and> (pages \<noteq> [] \<and> pages ! (pop n pages mod length pages) = url
       \<and> url |\<notin>| visited_pages st \<and> http_get env (length (requests st)) url = None
      \<longrightarrow> crawl_step env pop n pages st
          = (Inr (removeAll url pages), st\<lparr>requests := requests st @ [url]\<rparr>))"
  by (auto simp: scrape_page_fetch_failed crawl_step_none)

theorem failed_page_changes_nothing_witness:
  "scrape_page broken_env ''https://example.com/b'' True broken_s1 = (None, broken_s2)
   \<and> crawl_step broken_env fifo 1 [''https://example.com/b'', ''https://example.com/c'']
       broken_s1 = (Inr [''https://example.com/c''], broken_s2)
   \<and> visited_pages broken_s2 = visited_pages broken_s1
   \<and> files broken_s2 = files broken_s1"
  using failed_page_changes_nothing
    [of "''https://example.com/b''" broken_s1 broken_env True
        "[''https://example.com/b'', ''https://example.com/c'']" fifo 1]
  by (simp add: fifo_def broken_s1_def broken_s2_def)

subsection \<open>Failed downloads\<close>

definition logo_img :: element where
  "logo_img = \<lparr>tag_name = ''img'', attrs = [(''src'', ''/logo.png''), (''alt'', ''logo'')],
                rel = None, tag_string = None\<rparr>"
























































subsection \<open>Downloads are remembered\<close>

text \<open>
  The sets \<open>downloaded_images\<close>, \<open>downloaded_css\<close> and \<open>downloaded_js\<close> only grow.
\<close>

definition keeps_downloads :: "cloner \<Rightarrow> cloner \<Rightarrow> bool" where
  "keeps_downloads st st' \<longleftrightarrow>
     downloaded_images st |\<subseteq>| downloaded_images st'
     \<and> downloaded_css st |\<subseteq>| downloaded_css st'
     \<and> downloaded_js st |\<subseteq>| downloaded_js st'"

lemma keeps_downloads_refl [simp]: "keeps_downloads st st"
  by (simp add: keeps_downloads_def)

lemma keeps_downloads_trans: "keeps_downloads a b \<Longrightarrow> keeps_downloads b c \<Longrightarrow> keeps_downloads a c"
  by (auto simp: keeps_downloads_def)

lemma fetch_keeps_downloads: "fetch env u st = (r, st') \<Longrightarrow> keeps_downloads st st'"
  by (auto simp: fetch_def keeps_downloads_def)

lemma download_image_keeps_downloads: "download_image env u st = (r, st') \<Longrightarrow> keeps_downloads st st'"
  by (auto simp: download_image_def fetch_def keeps_downloads_def Let_def
      split: option.splits sum.splits if_splits)

lemma download_font_keeps_downloads: "download_font env u st = (r, st') \<Longrightarrow> keeps_downloads st st'"
  by (auto simp: download_font_def fetch_def keeps_downloads_def Let_def
      split: option.splits sum.splits if_splits)

lemma download_js_keeps_downloads: "download_js env u st = (r, st') \<Longrightarrow> keeps_downloads st st'"
  by (auto simp: download_js_def fetch_def keeps_downloads_def Let_def
      split: option.splits sum.splits if_splits)


lemma replace_url_keeps_downloads: "replace_url env c g0 u st = (r, st') \<Longrightarrow> keeps_downloads st st'"
  unfolding replace_url_def
  by (auto split: sum.splits prod.splits if_splits
      dest: download_image_keeps_downloads download_font_keeps_downloads)

lemma sub_tokens_keeps_downloads: "sub_tokens env c ts st = (r, st') \<Longrightarrow> keeps_downloads st st'"
proof (induction ts arbitrary: st r st')
  case Nil
  then show ?case by simp
next
  case (Cons t ts)
  show ?case
  proof (cases t)
    case (Lit ch)
    with Cons show ?thesis
      by (auto split: sum.splits prod.splits)
  next
    case (UrlMatch g0 g1)
    with Cons.prems show ?thesis
      by (auto split: sum.splits prod.splits
          dest: replace_url_keeps_downloads intro: keeps_downloads_trans [OF replace_url_keeps_downloads Cons.IH])
  qed
qed


lemma process_css_urls_keeps_downloads: "process_css_urls env s c st = (r, st') \<Longrightarrow> keeps_downloads st st'"
  unfolding process_css_urls_def by (rule sub_tokens_keeps_downloads)

lemma download_css_keeps_downloads:
  assumes a: "download_css env u st = (r, st')"
  shows "keeps_downloads st st'"
proof (cases "u |\<in>| downloaded_css st")
  case True
  with a show ?thesis by (simp add: download_css_def)
next
  case False
  define st1 where "st1 = st\<lparr>requests := requests st @ [u]\<rparr>"
  have k1: "keeps_downloads st st1" by (simp add: st1_def keeps_downloads_def)
  show ?thesis
  proof (cases "http_get env (length (requests st)) u")
    case None
    with False a have "st' = st1"
      by (simp add: download_css_def fetch_def st1_def)
    with k1 show ?thesis by simp
  next
    case (Some resp)
    show ?thesis
    proof (cases "get_filename_from_url env u ''style_''")
      case (Inl e)
      with False Some a have "st' = st1"
        by (simp add: download_css_def fetch_def st1_def)
      with k1 show ?thesis by simp
    next
      case (Inr filename)
      obtain r2 st2 where p: "process_css_urls env (resp_text resp) u st1 = (r2, st2)"
        by (cases "process_css_urls env (resp_text resp) u st1")
      have k2: "keeps_downloads st1 st2" by (rule process_css_urls_keeps_downloads [OF p])
      have "keeps_downloads st2 st'"
        using a False Some Inr p
        by (cases r2)
           (auto simp: download_css_def fetch_def Let_def st1_def [symmetric] keeps_downloads_def
              split: if_splits)
      with k1 k2 show ?thesis by (blast intro: keeps_downloads_trans)
    qed
  qed
qed

lemma for_each_keeps_downloads:
  assumes body: "\<And>e st r st'. body e st = (r, st') \<Longrightarrow> keeps_downloads st st'"
  shows "for_each sel body es st = (r, st') \<Longrightarrow> keeps_downloads st st'"
proof (induction es arbitrary: st r st')
  case Nil
  then show ?case by simp
next
  case (Cons e es)
  show ?case
  proof (cases "sel e")
    case True
    obtain r1 st1 where b: "body e st = (r1, st1)" by (cases "body e st")
    from body [OF b] have k1: "keeps_downloads st st1" .
    show ?thesis
    proof (cases r1)
      case (Inl err)
      with Cons.prems True b k1 show ?thesis by simp
    next
      case (Inr e')
      obtain r2 st2 where f: "for_each sel body es st1 = (r2, st2)"
        by (cases "for_each sel body es st1")
      from Cons.IH [OF f] have "keeps_downloads st1 st2" .
      with k1 have "keeps_downloads st st2" by (rule keeps_downloads_trans)
      with Cons.prems True b Inr f show ?thesis
        by (auto split: sum.splits)
    qed
  next
    case False
    obtain r2 st2 where f: "for_each sel body es st = (r2, st2)"
      by (cases "for_each sel body es st")
    from Cons.IH [OF f] have "keeps_downloads st st2" .
    with Cons.prems False f show ?thesis
      by (auto split: sum.splits)
  qed
qed

lemma css_link_body_keeps_downloads: "css_link_body env url e st = (r, st') \<Longrightarrow> keeps_downloads st st'"
  unfolding css_link_body_def
  by (auto split: option.splits sum.splits prod.splits if_splits dest: download_css_keeps_downloads)

lemma img_body_keeps_downloads: "img_body env url e st = (r, st') \<Longrightarrow> keeps_downloads st st'"
  unfolding img_body_def
  by (auto split: option.splits sum.splits prod.splits if_splits dest: download_image_keeps_downloads)

lemma style_body_keeps_downloads: "style_body env url e st = (r, st') \<Longrightarrow> keeps_downloads st st'"
  unfolding style_body_def Let_def
  by (auto split: option.splits sum.splits prod.splits if_splits dest: process_css_urls_keeps_downloads)

lemma script_body_keeps_downloads: "script_body env url e st = (r, st') \<Longrightarrow> keeps_downloads st st'"
  unfolding script_body_def
  by (auto split: option.splits sum.splits prod.splits if_splits dest: download_js_keeps_downloads)

lemma icon_body_keeps_downloads: "icon_body env url e st = (r, st') \<Longrightarrow> keeps_downloads st st'"
  unfolding icon_body_def
  by (auto split: option.splits sum.splits prod.splits if_splits dest: download_image_keeps_downloads)

lemma seq_keeps_downloads:
  assumes "(case x of (Inl e, s) \<Rightarrow> (Inl e, s) | (Inr v, s) \<Rightarrow> f v s) = (r, st')"
    and "\<And>r1 s1. x = (r1, s1) \<Longrightarrow> keeps_downloads st s1"
    and "\<And>v s r' s'. f v s = (r', s') \<Longrightarrow> keeps_downloads s s'"
  shows "keeps_downloads st st'"
proof (cases x)
  case (Pair r1 s1)
  with assms(2) have k: "keeps_downloads st s1" by simp
  show ?thesis
  proof (cases r1)
    case (Inl e)
    with Pair assms(1) k show ?thesis by simp
  next
    case (Inr v)
    with Pair assms(1) have "f v s1 = (r, st')" by simp
    from assms(3) [OF this] k show ?thesis by (blast intro: keeps_downloads_trans)
  qed
qed

lemma loops_keep_downloads:
  "for_each is_stylesheet_link (css_link_body env url) soup st = (r, st') \<Longrightarrow> keeps_downloads st st'"
  "for_each is_img (img_body env url) soup st = (r, st') \<Longrightarrow> keeps_downloads st st'"
  "for_each has_style (style_body env url) soup st = (r, st') \<Longrightarrow> keeps_downloads st st'"
  "for_each is_script_src (script_body env url) soup st = (r, st') \<Longrightarrow> keeps_downloads st st'"
  "for_each is_icon_link (icon_body env url) soup st = (r, st') \<Longrightarrow> keeps_downloads st st'"
proof -
  show "for_each is_stylesheet_link (css_link_body env url) soup st = (r, st') \<Longrightarrow> keeps_downloads st st'"
    using css_link_body_keeps_downloads by (rule for_each_keeps_downloads)
  show "for_each is_img (img_body env url) soup st = (r, st') \<Longrightarrow> keeps_downloads st st'"
    using img_body_keeps_downloads by (rule for_each_keeps_downloads)
  show "for_each has_style (style_body env url) soup st = (r, st') \<Longrightarrow> keeps_downloads st st'"
    using style_body_keeps_downloads by (rule for_each_keeps_downloads)
  show "for_each is_script_src (script_body env url) soup st = (r, st') \<Longrightarrow> keeps_downloads st st'"
    using script_body_keeps_downloads by (rule for_each_keeps_downloads)
  show "for_each is_icon_link (icon_body env url) soup st = (r, st') \<Longrightarrow> keeps_downloads st st'"
    using icon_body_keeps_downloads by (rule for_each_keeps_downloads)
qed

lemma download_resources_keeps_downloads:
  assumes "download_resources env url soup st = (r, st')"
  shows "keeps_downloads st st'"
proof -
  have 5: "keeps_downloads s s'" if "for_each is_icon_link (icon_body env url) v s = (r', s')"
    for v s r' s' using that by (rule loops_keep_downloads)
  have 4: "keeps_downloads s s'"
    if "(case for_each is_script_src (script_body env url) v s of
           (Inl e, st4) \<Rightarrow> (Inl e, st4)
         | (Inr soup4, st4) \<Rightarrow> for_each is_icon_link (icon_body env url) soup4 st4) = (r', s')"
    for v s r' s'
    using that by (rule seq_keeps_downloads) (erule loops_keep_downloads, erule 5)
  have 3: "keeps_downloads s s'"
    if "(case for_each has_style (style_body env url) v s of
           (Inl e, st3) \<Rightarrow> (Inl e, st3)
         | (Inr soup3, st3) \<Rightarrow>
             (case for_each is_script_src (script_body env url) soup3 st3 of
                (Inl e, st4) \<Rightarrow> (Inl e, st4)
              | (Inr soup4, st4) \<Rightarrow> for_each is_icon_link (icon_body env url) soup4 st4))
        = (r', s')"
    for v s r' s'
    using that by (rule seq_keeps_downloads) (erule loops_keep_downloads, erule 4)
  have 2: "keeps_downloads s s'"
    if "(case for_each is_img (img_body env url) v s of
           (Inl e, st2) \<Rightarrow> (Inl e, st2)
         | (Inr soup2, st2) \<Rightarrow>
         (case for_each has_style (style_body env url) soup2 st2 of
           (Inl e, st3) \<Rightarrow> (Inl e, st3)
         | (Inr soup3, st3) \<Rightarrow>
             (case for_each is_script_src (script_body env url) soup3 st3 of
                (Inl e, st4) \<Rightarrow> (Inl e, st4)
              | (Inr soup4, st4) \<Rightarrow> for_each is_icon_link (icon_body env url) soup4 st4)))
        = (r', s')"
    for v s r' s'
    using that by (rule seq_keeps_downloads) (erule loops_keep_downloads, erule 3)
  show ?thesis
    using assms unfolding download_resources_def
    by (rule seq_keeps_downloads) (erule loops_keep_downloads, erule 2)
qed

lemma extract_inline_css_keeps_downloads: "keeps_downloads st (extract_inline_css soup st)"
proof (induction soup arbitrary: st)
  case Nil
  then show ?case by simp
next
  case (Cons e es)
  have "keeps_downloads st (st\<lparr>inline_styles := inline_styles st @ [t]\<rparr>)" for t
    by (simp add: keeps_downloads_def)
  then show ?case
    using Cons.IH by (auto split: option.splits intro: keeps_downloads_trans)
qed



lemma save_html_file_keeps_downloads: "save_html_file env url soup st = (r, st') \<Longrightarrow> keeps_downloads st st'"
  by (auto simp: save_html_file_def Let_def keeps_downloads_def split: sum.splits if_splits)



lemma scrape_page_keeps_downloads:
  assumes "scrape_page env url save_html st = (r, st')"
  shows "keeps_downloads st st'"
proof (cases "url |\<in>| visited_pages st")
  case True
  with assms show ?thesis by (simp add: scrape_page_visited_url)
next
  case False
  show ?thesis
  proof (cases "http_get env (length (requests st)) url")
    case None
    from assms show ?thesis
      unfolding scrape_page_fetch_failed [OF False None] by (auto simp: keeps_downloads_def)
  next
    case (Some resp)
    let ?st2 = "st\<lparr>requests := requests st @ [url],
                   visited_pages := finsert url (visited_pages st)\<rparr>"
    let ?soup = "html_parser env (resp_content resp)"
    obtain r4 st4 where
      d: "download_resources env url ?soup (extract_inline_css ?soup ?st2) = (r4, st4)"
      by (cases "download_resources env url ?soup (extract_inline_css ?soup ?st2)")
    have "keeps_downloads ?st2 (extract_inline_css ?soup ?st2)"
      by (rule extract_inline_css_keeps_downloads)
    moreover have "keeps_downloads (extract_inline_css ?soup ?st2) st4"
      by (rule download_resources_keeps_downloads [OF d])
    ultimately have k4: "keeps_downloads ?st2 st4"
      by (rule keeps_downloads_trans)
    have eq: "(case (r4, st4) of
                 (Inl e, st4) \<Rightarrow> (None, st4)
               | (Inr soup4, st4) \<Rightarrow>
                   if save_html then save_html_file env url soup4 st4 else (Some soup4, st4))
              = (r, st')"
      using assms unfolding scrape_page_fetched [OF False Some] d .
    have "keeps_downloads st4 st'"
    proof (cases r4)
      case (Inl e)
      with eq show ?thesis by simp
    next
      case (Inr soup4)
      show ?thesis
      proof (cases save_html)
        case True
        with eq Inr have "save_html_file env url soup4 st4 = (r, st')" by simp
        then show ?thesis by (rule save_html_file_keeps_downloads)
      next
        case False
        with eq Inr show ?thesis by simp
      qed
    qed
    with k4 have "keeps_downloads ?st2 st'" by (rule keeps_downloads_trans)
    then show ?thesis by (simp add: keeps_downloads_def)
  qed
qed

lemma crawl_step_keeps_downloads:
  assumes "crawl_step env pop n pages st = (r, st')"
  shows "keeps_downloads st st'"
proof -
  let ?url = "pages ! (pop n pages mod length pages)"
  show ?thesis
  proof (cases "?url |\<in>| visited_pages st")
    case True
    with assms show ?thesis by (simp add: crawl_step_skip)
  next
    case False
    obtain r1 st1 where sp: "scrape_page env ?url True st = (r1, st1)"
      by (cases "scrape_page env ?url True st")
    have "st' = st1"
    proof (cases r1)
      case None
      with assms False sp show ?thesis by (simp add: crawl_step_none)
    next
      case (Some soup)
      with assms False sp show ?thesis
        by (cases "find_internal_links env st1 soup ?url") (simp_all add: crawl_step_some)
    qed
    with scrape_page_keeps_downloads [OF sp] show ?thesis by simp
  qed
qed

lemma crawl_loop_keeps_downloads:
  "crawl_loop env pop max_pages n pages st = (r, st') \<Longrightarrow> keeps_downloads st st'"
proof (induction env pop max_pages n pages st rule: crawl_loop.induct)
  case (1 env pop max_pages n pages st)
  show ?case
  proof (cases "pages \<noteq> [] \<and> int (fcard (visited_pages st)) < max_pages")
    case False
    with "1.prems" show ?thesis
      by (simp add: crawl_loop.simps)
  next
    case True
    obtain r1 st1 where cs: "crawl_step env pop n pages st = (r1, st1)"
      by (cases "crawl_step env pop n pages st")
    have k1: "keeps_downloads st st1"
      by (rule crawl_step_keeps_downloads [OF cs])
    show ?thesis
    proof (cases r1)
      case (Inl e)
      with "1.prems" True cs have "st' = st1"
        by (simp add: crawl_loop.simps)
      with k1 show ?thesis by simp
    next
      case (Inr pages')
      with "1.prems" True cs
      have "crawl_loop env pop max_pages (Suc n) pages' st1 = (r, st')"
        by (simp add: crawl_loop.simps)
      from "1.IH" [OF True cs [symmetric] Inr this] k1 show ?thesis
        by (blast intro: keeps_downloads_trans)
    qed
  qed
qed

lemma save_summary_keeps_downloads:
  "save_summary env st = (r, st') \<Longrightarrow> keeps_downloads st st'"
  by (auto simp: save_summary_def Let_def keeps_downloads_def split: if_splits)

lemma scrape_full_site_keeps_downloads:
  assumes "scrape_full_site env pop max_pages st = (r, st')"
  shows "keeps_downloads st st'"
proof -
  obtain r1 st1 where l: "crawl_loop env pop max_pages 0 [base_url st] st = (r1, st1)"
    by (cases "crawl_loop env pop max_pages 0 [base_url st] st")
  have k1: "keeps_downloads st st1"
    by (rule crawl_loop_keeps_downloads [OF l])
  show ?thesis
  proof (cases r1)
    case (Inl e)
    with assms l have "st' = st1" by (simp add: scrape_full_site_def)
    with k1 show ?thesis by simp
  next
    case (Inr u)
    with assms l have "save_summary env st1 = (r, st')" by (simp add: scrape_full_site_def)
    from save_summary_keeps_downloads [OF this] k1 show ?thesis
      by (blast intro: keeps_downloads_trans)
  qed
qed

lemma download_image_recorded:
  assumes "download_image env u st = (Inr f, st1)" and "f \<noteq> []"
  shows "u |\<in>| downloaded_images st1 \<and> get_filename_from_url env u ''img_'' = Inr f"
  using assms download_image_again [OF assms]
  by (cases "u |\<in>| downloaded_images st")
     (auto simp: download_image_def fetch_def Let_def split: option.splits sum.splits if_splits)


lemma download_css_recorded:
  assumes "download_css env u st = (Inr f, st1)" and "f \<noteq> []"
  shows "u |\<in>| downloaded_css st1 \<and> get_filename_from_url env u ''style_'' = Inr f"
proof (cases "u |\<in>| downloaded_css st")
  case True
  with assms show ?thesis by (auto simp: download_css_def)
next
  case False
  show ?thesis
  proof (cases "http_get env (length (requests st)) u")
    case None
    with False assms show ?thesis by (simp add: download_css_def fetch_def)
  next
    case (Some resp)
    show ?thesis
    proof (cases "get_filename_from_url env u ''style_''")
      case (Inl e)
      with False Some assms show ?thesis by (simp add: download_css_def fetch_def)
    next
      case (Inr filename)
      obtain r2 st2 where
        p: "process_css_urls env (resp_text resp) u (st\<lparr>requests := requests st @ [u]\<rparr>)
              = (r2, st2)"
        by (cases "process_css_urls env (resp_text resp) u (st\<lparr>requests := requests st @ [u]\<rparr>)")
      from assms False Some Inr p
      have "u |\<in>| downloaded_css st1 \<and> filename = f"
        by (cases r2) (auto simp: download_css_def fetch_def Let_def split: if_splits)
      with Inr show ?thesis by simp
    qed
  qed
qed

lemma download_js_recorded:
  assumes "download_js env u st = (Inr f, st1)" and "f \<noteq> []"
  shows "u |\<in>| downloaded_js st1 \<and> get_filename_from_url env u ''script_'' = Inr f"
  using assms
  by (cases "u |\<in>| downloaded_js st")
     (auto simp: download_js_def fetch_def Let_def split: option.splits sum.splits if_splits)

lemma download_image_later:
  assumes "download_image env u st = (Inr f, st1)" and "f \<noteq> []"
    and "keeps_downloads st1 st2"
  shows "download_image env u st2 = (Inr f, st2)"
  using download_image_recorded [OF assms(1,2)] assms(3)
  by (auto simp: download_image_def keeps_downloads_def)

lemma download_css_later:
  assumes "download_css env u st = (Inr f, st1)" and "f \<noteq> []"
    and "keeps_downloads st1 st2"
  shows "download_css env u st2 = (Inr f, st2)"
  using download_css_recorded [OF assms(1,2)] assms(3)
  by (auto simp: download_css_def keeps_downloads_def)

lemma download_js_later:
  assumes "download_js env u st = (Inr f, st1)" and "f \<noteq> []"
    and "keeps_downloads st1 st2"
  shows "download_js env u st2 = (Inr f, st2)"
  using download_js_recorded [OF assms(1,2)] assms(3)
  by (auto simp: download_js_def keeps_downloads_def)

text \<open>
  C3, amended: once a request for an image, a stylesheet or a script has returned a
  local name that is not empty, every later request for the same URL in the same run
  returns that name and leaves the state as it is, so that nothing is fetched. The
  later state may be any state that keeps the three sets of downloaded URLs, and every
  operation of the cloner keeps them. Fonts are not covered, nor are requests whose
  first attempt failed.
\<close>

theorem second_request_is_served_locally:
  "(download_image env u st = (Inr f, st1) \<and> f \<noteq> [] \<and> keeps_downloads st1 st2
      \<longrightarrow> download_image env u st2 = (Inr f, st2))
   \<and> (download_css env u st = (Inr f, st1) \<and> f \<noteq> [] \<and> keeps_downloads st1 st2
      \<longrightarrow> download_css env u st2 = (Inr f, st2))
   \<and> (download_js env u st = (Inr f, st1) \<and> f \<noteq> [] \<and> keeps_downloads st1 st2
      \<longrightarrow> download_js env u st2 = (Inr f, st2))
   \<and> keeps_downloads s s
   \<and> (keeps_downloads s s' \<and> keeps_downloads s' s'' \<longrightarrow> keeps_downloads s s'')
   \<and> (fetch env v s = (resp, s') \<longrightarrow> keeps_downloads s s')
   \<and> (download_image env v s = (r1, s') \<longrightarrow> keeps_downloads s s')
   \<and> (download_font env v s = (r1, s') \<longrightarrow> keeps_downloads s s')
   \<and> (download_js env v s = (r1, s') \<longrightarrow> keeps_downloads s s')
   \<and> (download_css env v s = (r1, s') \<longrightarrow> keeps_downloads s s')
   \<and> (replace_url env v g0 ref s = (r1, s') \<longrightarrow> keeps_downloads s s')
   \<and> (process_css_urls env css v s = (r1, s') \<longrightarrow> keeps_downloads s s')
   \<and> (css_link_body env v e s = (r2, s') \<longrightarrow> keeps_downloads s s')
   \<and> (img_body env v e s = (r2, s') \<longrightarrow> keeps_downloads s s')
   \<and> (style_body env v e s = (r2, s') \<longrightarrow> keeps_downloads s s')
   \<and> (script_body env v e s = (r2, s') \<longrightarrow> keeps_downloads s s')
   \<and> (icon_body env v e s = (r2, s') \<longrightarrow> keeps_downloads s s')
   \<and> (download_resources env v soup s = (r3, s') \<longrightarrow> keeps_downloads s s')
   \<and> keeps_downloads s (extract_inline_css soup s)
   \<and> (save_html_file env v soup s = (r4, s') \<longrightarrow> keeps_downloads s s')
   \<and> (scrape_page env v save_html s = (r4, s') \<longrightarrow> keeps_downloads s s')
   \<and> (crawl_step env pop n pages s = (r5, s') \<longrightarrow> keeps_downloads s s')
   \<and> (crawl_loop env pop max_pages n pages s = (r6, s') \<longrightarrow> keeps_downloads s s')
   \<and> (save_summary env s = (r6, s') \<longrightarrow> keeps_downloads s s')
   \<and> (scrape_full_site env pop max_pages s = (r6, s') \<longrightarrow> keeps_downloads s s')"
  by (intro conjI impI;
        (elim conjE)?;
        (rule keeps_downloads_refl extract_inline_css_keeps_downloads
          | erule download_image_later download_css_later download_js_later, assumption+
          | erule keeps_downloads_trans, assumption
          | erule fetch_keeps_downloads download_image_keeps_downloads
              download_font_keeps_downloads download_js_keeps_downloads
              download_css_keeps_downloads replace_url_keeps_downloads
              process_css_urls_keeps_downloads css_link_body_keeps_downloads
              img_body_keeps_downloads style_body_keeps_downloads
              script_body_keeps_downloads icon_body_keeps_downloads
              download_resources_keeps_downloads save_html_file_keeps_downloads
              scrape_page_keeps_downloads crawl_step_keeps_downloads
              crawl_loop_keeps_downloads save_summary_keeps_downloads
              scrape_full_site_keeps_downloads))


theorem second_request_is_served_locally_witness:
  "download_image serving_env ''https://example.com/logo.png'' example_cloner
     = (Inr ''img_logo.png'', logo_state)
   \<and> download_image serving_env ''https://example.com/banner.png'' logo_state
     = (Inr ''img_banner.png'', banner_state)
   \<and> keeps_downloads logo_state banner_state
   \<and> download_image serving_env ''https://example.com/logo.png'' banner_state
     = (Inr ''img_logo.png'', banner_state)
   \<and> requests banner_state = [''https://example.com/logo.png'',
                               ''https://example.com/banner.png'']"
proof -
  note inst = second_request_is_served_locally
    [where env = serving_env and u = "''https://example.com/logo.png''"
       and st = example_cloner and f = "''img_logo.png''" and ?st1.0 = logo_state
       and ?st2.0 = banner_state
       and v = "''https://example.com/banner.png''"
       and s = logo_state and s' = banner_state and ?r1.0 = "Inr ''img_banner.png''"
       and s'' = banner_state and resp = None and ?g0.0 = "[]" and ref = "[]"
       and css = "[]" and e = logo_img and ?r2.0 = "Inr logo_img" and soup = "[]"
       and ?r3.0 = "Inr []" and ?r4.0 = None and save_html = True
       and pop = "\<lambda>n pages. 0" and n = 0 and pages = "[]" and ?r5.0 = "Inr []"
       and max_pages = 0 and ?r6.0 = "Inr ()"]
  have k: "keeps_downloads logo_state banner_state"
    using inst download_banner by blast
  have "download_image serving_env ''https://example.com/logo.png'' banner_state
      = (Inr ''img_logo.png'', banner_state)"
    using inst download_logo k by blast
  moreover have "requests banner_state = [''https://example.com/logo.png'',
                               ''https://example.com/banner.png'']"
    by (simp add: banner_state_def)
  ultimately show ?thesis
    using download_logo download_banner k by simp
qed

subsection \<open>A stylesheet that refers to an image\<close>

text \<open>
  The home page of \<open>https://example.test/\<close> refers to \<open>styles.css\<close>, which refers
  to \<open>../img/bg.png\<close>.
\<close>

definition css_text :: string where
  "css_text = ''body { background: url(../img/bg.png); }''"

definition style_link :: element where
  "style_link = \<lparr>tag_name = ''link'', attrs = [(''href'', ''styles.css'')],
                  rel = Some [''stylesheet''], tag_string = None\<rparr>"

definition style_env :: env where
  "style_env =
     example_env\<lparr>
       http_get := (\<lambda>n url.
          if url = ''https://example.test''
          then Some \<lparr>resp_content = ''page'', resp_text = ''page''\<rparr>
          else if url = ''https://example.test/styles.css''
          then Some \<lparr>resp_content = css_text, resp_text = css_text\<rparr>
          else if url = ''https://example.test/img/bg.png''
          then Some \<lparr>resp_content = ''PNG'', resp_text = ''PNG''\<rparr>
          else None),
       html_parser := (\<lambda>content. if content = ''page'' then [style_link] else [])\<rparr>"

text \<open>What \<open>WebsiteCloner("https://example.test/", "output")\<close> builds.\<close>

definition test_cloner :: cloner where
  "test_cloner = example_cloner\<lparr>base_url := ''https://example.test'', domain := ''example.test''\<rparr>"

lemma init_test:
  "init style_env ''https://example.test/'' ''output'' = Inr test_cloner"
  by (simp add: init_def style_env_def example_env_def test_cloner_def example_cloner_def
      url_eval directories_def)

lemma tokens_css_text:
  "css_tokens css_text =
     map Lit ''body { background: ''
     @ [UrlMatch ''url(../img/bg.png)'' ''../img/bg.png'']
     @ map Lit ''; }''"
  by code_simp

lemma normalize_style:
  "normalize_url env self ''styles.css'' (Some ''https://example.test'')
     = Inr ''https://example.test/styles.css''"
  "normalize_url env self ''../img/bg.png'' (Some ''https://example.test/styles.css'')
     = Inr ''https://example.test/img/bg.png''"
  by (simp_all add: normalize_url_def url_eval)

lemma filename_style:
  "get_filename_from_url env ''https://example.test/styles.css'' ''style_''
     = Inr ''style_styles.css''"
  "get_filename_from_url env ''https://example.test/img/bg.png'' ''img_''
     = Inr ''img_img_bg.png''"
  "get_filename_from_url env ''https://example.test'' ''page_'' = Inr ''page_index.html''"
  by (simp_all add: get_filename_from_url_def url_eval)

lemma bg_is_image:
  "any_in image_exts (lower ''https://example.test/img/bg.png'')"
  by (simp add: any_in_def image_exts_def lower_def lower_char_def is_upper_def)


text \<open>The stylesheet as it is saved.\<close>

definition new_css :: string where
  "new_css = ''body { background: url(../images/img_img_bg.png); }''"

lemma style_env_simps [simp]:
  "can_write style_env file"
  "prettify style_env soup = []"
  "check_bracketed_host style_env h"
  "http_get style_env n ''https://example.test''
     = Some \<lparr>resp_content = ''page'', resp_text = ''page''\<rparr>"
  "http_get style_env n ''https://example.test/styles.css''
     = Some \<lparr>resp_content = css_text, resp_text = css_text\<rparr>"
  "http_get style_env n ''https://example.test/img/bg.png''
     = Some \<lparr>resp_content = ''PNG'', resp_text = ''PNG''\<rparr>"
  "html_parser style_env ''page'' = [style_link]"
  by (simp_all add: style_env_def example_env_def)

lemma replace_bg:
  assumes "''https://example.test/img/bg.png'' |\<notin>| downloaded_images st"
    and "output_dir st = ''output''"
  shows "replace_url style_env ''https://example.test/styles.css''
           ''url(../img/bg.png)'' ''../img/bg.png'' st
       = (Inr ''url(../images/img_img_bg.png)'',
          st\<lparr>requests := requests st @ [''https://example.test/img/bg.png''],
             files := (files st)(''output/images/img_img_bg.png'' \<mapsto> Bytes ''PNG''),
             downloaded_images :=
               finsert ''https://example.test/img/bg.png'' (downloaded_images st)\<rparr>)"
  using assms
    download_image_fresh [of "''https://example.test/img/bg.png''" st style_env
      "\<lparr>resp_content = ''PNG'', resp_text = ''PNG''\<rparr>" "''img_img_bg.png''"]
  by (simp add: replace_url_def normalize_style bg_is_image filename_style path_join_def
      suffix_to_prefix)

lemma process_bg:
  assumes "''https://example.test/img/bg.png'' |\<notin>| downloaded_images st"
    and "output_dir st = ''output''"
  shows "process_css_urls style_env css_text ''https://example.test/styles.css'' st
       = (Inr new_css,
          st\<lparr>requests := requests st @ [''https://example.test/img/bg.png''],
             files := (files st)(''output/images/img_img_bg.png'' \<mapsto> Bytes ''PNG''),
             downloaded_images :=
               finsert ''https://example.test/img/bg.png'' (downloaded_images st)\<rparr>)"
  by (simp add: process_css_urls_def tokens_css_text sub_tokens_lits replace_bg [OF assms]
      new_css_def)

lemma download_styles:
  assumes "''https://example.test/styles.css'' |\<notin>| downloaded_css st"
    and "''https://example.test/img/bg.png'' |\<notin>| downloaded_images st"
    and "output_dir st = ''output''"
  shows "download_css style_env ''https://example.test/styles.css'' st
       = (Inr ''style_styles.css'',
          st\<lparr>requests := requests st @ [''https://example.test/styles.css'',
                                          ''https://example.test/img/bg.png''],
             files := (files st)(''output/images/img_img_bg.png'' \<mapsto> Bytes ''PNG'',
                                 ''output/css/style_styles.css'' \<mapsto> Text new_css),
             downloaded_images :=
               finsert ''https://example.test/img/bg.png'' (downloaded_images st),
             all_css_rules :=
               AList.update ''https://example.test/styles.css'' [new_css] (all_css_rules st),
             downloaded_css :=
               finsert ''https://example.test/styles.css'' (downloaded_css st)\<rparr>)"
  using assms
  by (simp add: download_css_def fetch_def Let_def filename_style process_bg path_join_def
      suffix_to_prefix)

text \<open>The \<open>link\<close> tag after the stylesheet was saved, and the state after the page was.\<close>

definition style_link' :: element where
  "style_link' = \<lparr>tag_name = ''link'', attrs = [(''href'', ''../css/style_styles.css'')],
                   rel = Some [''stylesheet''], tag_string = None\<rparr>"

lemma style_link_kind:
  "is_stylesheet_link style_link" "\<not> is_style_tag style_link"
  "\<not> is_img style_link'" "\<not> has_style style_link'" "\<not> is_script_src style_link'"
  "\<not> is_icon_link style_link'" "\<not> is_a_href style_link'"
  "get_attr ''href'' style_link = Some ''styles.css''"
  "set_attr ''href'' ''../css/style_styles.css'' style_link = style_link'"
  by (simp_all add: is_stylesheet_link_def is_style_tag_def is_img_def has_style_def
      is_script_src_def is_icon_link_def is_a_href_def get_attr_def set_attr_def
      style_link_def style_link'_def lower_def lower_char_def is_upper_def)

definition style_done :: cloner where
  "style_done =
     test_cloner\<lparr>
       requests := [''https://example.test'', ''https://example.test/styles.css'',
                    ''https://example.test/img/bg.png''],
       visited_pages := {|''https://example.test''|},
       downloaded_images := {|''https://example.test/img/bg.png''|},
       downloaded_css := {|''https://example.test/styles.css''|},
       all_css_rules := [(''https://example.test/styles.css'', [new_css])],
       files := [''output/images/img_img_bg.png'' \<mapsto> Bytes ''PNG'',
                 ''output/css/style_styles.css'' \<mapsto> Text new_css,
                 ''output/html/page_index.html'' \<mapsto> Text []]\<rparr>"

lemma scrape_style_page:
  "scrape_page style_env ''https://example.test'' True test_cloner
     = (Some [style_link'], style_done)"
  by (simp add: scrape_page_def fetch_def Let_def download_resources_def css_link_body_def
      style_link_kind normalize_style download_styles save_html_file_def filename_style
      path_join_def suffix_to_prefix test_cloner_def example_cloner_def style_done_def)

lemma style_step:
  "crawl_step style_env pop n [''https://example.test''] test_cloner = (Inr [], style_done)"
proof -
  have "find_internal_links style_env style_done [style_link'] ''https://example.test'' = Inr []"
    by (simp add: find_internal_links_def style_link_kind)
  moreover have "''https://example.test'' |\<notin>| visited_pages test_cloner"
    by (simp add: test_cloner_def example_cloner_def)
  ultimately show ?thesis
    by (simp add: crawl_step_def Let_def scrape_style_page)
qed

lemma test_cloner_simps:
  "visited_pages test_cloner = {||}" "base_url test_cloner = ''https://example.test''"
  by (simp_all add: test_cloner_def example_cloner_def)

lemma style_done_simps:
  "output_dir style_done = ''output''" "inline_styles style_done = []"
  "requests style_done = [''https://example.test'', ''https://example.test/styles.css'',
     ''https://example.test/img/bg.png'']"
  "files style_done = [''output/images/img_img_bg.png'' \<mapsto> Bytes ''PNG'',
     ''output/css/style_styles.css'' \<mapsto> Text new_css,
     ''output/html/page_index.html'' \<mapsto> Text []]"
  by (simp_all add: style_done_def test_cloner_def example_cloner_def)

lemma style_run:
  "crawl_loop style_env pop 50 0 [''https://example.test''] test_cloner = (Inr (), style_done)"
  by (simp add: crawl_loop_next [OF _ _ style_step] crawl_loop_stop test_cloner_simps
      fcard_fempty)

lemma style_files:
  "files (snd (scrape_full_site style_env pop 50 test_cloner))
     = (files style_done)(''output/scrape_summary.json'' \<mapsto> Json (make_summary style_done))"
  by (simp add: scrape_full_site_def style_run save_summary_def Let_def path_join_def
      suffix_to_prefix style_done_simps(1,2) test_cloner_simps)

lemma style_requests:
  "requests (snd (scrape_full_site style_env pop 50 test_cloner)) = requests style_done"
  by (simp add: scrape_full_site_def style_run save_summary_requests test_cloner_simps)

text \<open>
  C7, as stated: after the run \<open>css/style_styles.css\<close> and \<open>images/img_bg.png\<close>
  exist and the saved stylesheet refers to \<open>../images/img_bg.png\<close>. The reference
  \<open>../img/bg.png\<close> resolves to \<open>https://example.test/img/bg.png\<close>, whose path
  \<open>img/bg.png\<close> is flattened to \<open>img_bg.png\<close> before the prefix \<open>img_\<close> is put
  in front: there is no file \<open>images/img_bg.png\<close>, and the stylesheet refers to
  \<open>../images/img_img_bg.png\<close>.
\<close>

theorem nested_image_is_not_img_bg:
  "init style_env ''https://example.test/'' ''output'' = Inr test_cloner
   \<and> files (snd (scrape_full_site style_env fifo 50 test_cloner)) ''output/images/img_bg.png''
       = None
   \<and> files (snd (scrape_full_site style_env fifo 50 test_cloner))
         ''output/css/style_styles.css''
       = Some (Text ''body { background: url(../images/img_img_bg.png); }'')"
  by (simp add: init_test style_files style_done_simps new_css_def)

lemma get_filename_nonempty:
  "get_filename_from_url env u pre = Inr f \<Longrightarrow> pre \<noteq> [] \<Longrightarrow> f \<noteq> []"
  by (auto simp: get_filename_from_url_def Let_def split: sum.splits)

lemma sub_tokens_all_lits: "sub_tokens env c (map Lit s) st = (Inr s, st)"
  by (induction s) simp_all

lemma sub_tokens_one_url:
  assumes "replace_url env c g0 ref st = (Inr repl, st1)"
  shows "sub_tokens env c (map Lit pre @ UrlMatch g0 ref # map Lit post) st
       = (Inr (pre @ repl @ post), st1)"
  unfolding sub_tokens_lits by (simp add: assms sub_tokens_all_lits)

lemma replace_url_image_saved:
  assumes "\<not> prefix ''data:'' ref" and "\<not> prefix ''../images/'' ref"
    and "normalize_url env st ref (Some css_url) = Inr img_url" and "img_url \<noteq> []"
    and "any_in image_exts (lower img_url)"
    and "img_url |\<notin>| downloaded_images st"
    and "http_get env (length (requests st)) img_url = Some img"
    and "get_filename_from_url env img_url ''img_'' = Inr img_name"
    and "can_write env (path_join (path_join (output_dir st) ''images'') img_name)"
  shows "replace_url env css_url g0 ref st
       = (Inr (''url(../images/'' @ img_name @ '')''),
          st\<lparr>requests := requests st @ [img_url],
             files := (files st)(path_join (path_join (output_dir st) ''images'') img_name
                        \<mapsto> Bytes (resp_content img)),
             downloaded_images := finsert img_url (downloaded_images st)\<rparr>)"
proof -
  have "img_name \<noteq> []"
    using get_filename_nonempty [OF assms(8)] by simp
  with assms show ?thesis
    by (simp add: replace_url_def download_image_fresh)
qed

lemma download_css_with_image:
  assumes css: "css_url |\<notin>| downloaded_css st"
      "http_get env (length (requests st)) css_url = Some resp"
      "get_filename_from_url env css_url ''style_'' = Inr css_name"
      "can_write env (path_join (path_join (output_dir st) ''css'') css_name)"
    and toks: "css_tokens (resp_text resp) = map Lit pre @ UrlMatch g0 ref # map Lit post"
    and img: "\<not> prefix ''data:'' ref" "\<not> prefix ''../images/'' ref"
      "normalize_url env st ref (Some css_url) = Inr img_url" "img_url \<noteq> []"
      "any_in image_exts (lower img_url)"
      "img_url |\<notin>| downloaded_images st"
      "http_get env (Suc (length (requests st))) img_url = Some img"
      "get_filename_from_url env img_url ''img_'' = Inr img_name"
      "can_write env (path_join (path_join (output_dir st) ''images'') img_name)"
  shows "download_css env css_url st
       = (Inr css_name,
          st\<lparr>requests := requests st @ [css_url, img_url],
             files := (files st)
               (path_join (path_join (output_dir st) ''images'') img_name
                  \<mapsto> Bytes (resp_content img),
                path_join (path_join (output_dir st) ''css'') css_name
                  \<mapsto> Text (pre @ ''url(../images/'' @ img_name @ '')'' @ post)),
             downloaded_images := finsert img_url (downloaded_images st),
             all_css_rules :=
               AList.update css_url [pre @ ''url(../images/'' @ img_name @ '')'' @ post]
                 (all_css_rules st),
             downloaded_css := finsert css_url (downloaded_css st)\<rparr>)"
proof -
  let ?st1 = "st\<lparr>requests := requests st @ [css_url]\<rparr>"
  have n: "normalize_url env ?st1 ref (Some css_url) = Inr img_url"
    using img(3) normalize_url_self [of ?st1 st env ref "Some css_url"] by simp
  have r: "replace_url env css_url g0 ref ?st1
       = (Inr (''url(../images/'' @ img_name @ '')''),
          ?st1\<lparr>requests := requests ?st1 @ [img_url],
             files := (files ?st1)(path_join (path_join (output_dir ?st1) ''images'') img_name
                        \<mapsto> Bytes (resp_content img)),
             downloaded_images := finsert img_url (downloaded_images ?st1)\<rparr>)"
    by (rule replace_url_image_saved [OF img(1,2) n img(4,5)]) (simp_all add: img)
  have p: "process_css_urls env (resp_text resp) css_url ?st1
       = (Inr (pre @ ''url(../images/'' @ img_name @ '')'' @ post),
          ?st1\<lparr>requests := requests ?st1 @ [img_url],
             files := (files ?st1)(path_join (path_join (output_dir ?st1) ''images'') img_name
                        \<mapsto> Bytes (resp_content img)),
             downloaded_images := finsert img_url (downloaded_images ?st1)\<rparr>)"
    unfolding process_css_urls_def toks using sub_tokens_one_url [OF r, of pre post] by simp
  show ?thesis
    using css by (simp add: download_css_def fetch_def Let_def p)
qed


text \<open>
  C7, amended: when the loop over the stylesheet links comes to a link whose
  stylesheet is fetched and contains a reference \<open>url(ref)\<close> to an image, the
  reference is resolved against the URL of the stylesheet itself, the image is fetched
  from there and saved in \<open>images\<close> under the name that \<open>_get_filename_from_url\<close>
  gives it (the whole path with \<open>_\<close> for \<open>/\<close>, after the prefix \<open>img_\<close>), the
  stylesheet is saved in \<open>css\<close> with \<open>url(../images/name)\<close> in place of the
  reference, and the link is set to the saved stylesheet.
\<close>

theorem nested_image_is_saved:
  "get_attr ''href'' link = Some href \<and> href \<noteq> []
   \<and> normalize_url env st href (Some url) = Inr css_url \<and> css_url \<noteq> []
   \<and> css_url |\<notin>| downloaded_css st
   \<and> http_get env (length (requests st)) css_url = Some resp
   \<and> get_filename_from_url env css_url ''style_'' = Inr css_name
   \<and> can_write env (path_join (path_join (output_dir st) ''css'') css_name)
   \<and> css_tokens (resp_text resp) = map Lit pre @ UrlMatch g0 ref # map Lit post
   \<and> \<not> prefix ''data:'' ref \<and> \<not> prefix ''../images/'' ref
   \<and> normalize_url env st ref (Some css_url) = Inr img_url \<and> img_url \<noteq> []
   \<and> any_in image_exts (lower img_url)
   \<and> img_url |\<notin>| downloaded_images st
   \<and> http_get env (Suc (length (requests st))) img_url = Some img
   \<and> get_filename_from_url env img_url ''img_'' = Inr img_name
   \<and> can_write env (path_join (path_join (output_dir st) ''images'') img_name)
   \<longrightarrow>
   css_link_body env url link st
     = (Inr (set_attr ''href'' (''../css/'' @ css_name) link),
        st\<lparr>requests := requests st @ [css_url, img_url],
           files := (files st)
             (path_join (path_join (output_dir st) ''images'') img_name
                \<mapsto> Bytes (resp_content img),
              path_join (path_join (output_dir st) ''css'') css_name
                \<mapsto> Text (pre @ ''url(../images/'' @ img_name @ '')'' @ post)),
           downloaded_images := finsert img_url (downloaded_images st),
           all_css_rules :=
             AList.update css_url [pre @ ''url(../images/'' @ img_name @ '')'' @ post]
               (all_css_rules st),
           downloaded_css := finsert css_url (downloaded_css st)\<rparr>)"
proof (intro impI, elim conjE)
  assume link: "get_attr ''href'' link = Some href" "href \<noteq> []"
      "normalize_url env st href (Some url) = Inr css_url" "css_url \<noteq> []"
    and css: "css_url |\<notin>| downloaded_css st"
      "http_get env (length (requests st)) css_url = Some resp"
      "get_filename_from_url env css_url ''style_'' = Inr css_name"
      "can_write env (path_join (path_join (output_dir st) ''css'') css_name)"
    and toks: "css_tokens (resp_text resp) = map Lit pre @ UrlMatch g0 ref # map Lit post"
    and img: "\<not> prefix ''data:'' ref" "\<not> prefix ''../images/'' ref"
      "normalize_url env st ref (Some css_url) = Inr img_url" "img_url \<noteq> []"
      "any_in image_exts (lower img_url)"
      "img_url |\<notin>| downloaded_images st"
      "http_get env (Suc (length (requests st))) img_url = Some img"
      "get_filename_from_url env img_url ''img_'' = Inr img_name"
      "can_write env (path_join (path_join (output_dir st) ''images'') img_name)"
  have "css_name \<noteq> []"
    using get_filename_nonempty [OF css(3)] by simp
  then show "css_link_body env url link st
     = (Inr (set_attr ''href'' (''../css/'' @ css_name) link),
        st\<lparr>requests := requests st @ [css_url, img_url],
           files := (files st)
             (path_join (path_join (output_dir st) ''images'') img_name
                \<mapsto> Bytes (resp_content img),
              path_join (path_join (output_dir st) ''css'') css_name
                \<mapsto> Text (pre @ ''url(../images/'' @ img_name @ '')'' @ post)),
           downloaded_images := finsert img_url (downloaded_images st),
           all_css_rules :=
             AList.update css_url [pre @ ''url(../images/'' @ img_name @ '')'' @ post]
               (all_css_rules st),
           downloaded_css := finsert css_url (downloaded_css st)\<rparr>)"
    by (simp add: css_link_body_def link download_css_with_image [OF css toks img])
qed

text \<open>
  The home page of \<open>https://example.com\<close> refers to a stylesheet two directories
  down, which refers to \<open>../img/bg.png\<close>. The image is served beside the
  stylesheet's directory only, not at \<open>/img/bg.png\<close>.
\<close>

definition assets_link :: element where
  "assets_link = \<lparr>tag_name = ''link'', attrs = [(''href'', ''assets/css/styles.css'')],
                   rel = Some [''stylesheet''], tag_string = None\<rparr>"

definition assets_env :: env where
  "assets_env =
     example_env\<lparr>
       http_get := (\<lambda>n url.
          if url = ''https://example.com''
          then Some \<lparr>resp_content = ''page'', resp_text = ''page''\<rparr>
          else if url = ''https://example.com/assets/css/styles.css''
          then Some \<lparr>resp_content = css_text, resp_text = css_text\<rparr>
          else if url = ''https://example.com/assets/img/bg.png''
          then Some \<lparr>resp_content = ''PNG'', resp_text = ''PNG''\<rparr>
          else None),
       html_parser := (\<lambda>content. if content = ''page'' then [assets_link] else [])\<rparr>"

definition assets_link' :: element where
  "assets_link' = set_attr ''href'' ''../css/style_assets_css_styles.css'' assets_link"

definition assets_css :: string where
  "assets_css = ''body { background: url(../images/img_assets_img_bg.png); }''"

definition assets_s1 :: cloner where
  "assets_s1 = example_cloner\<lparr>requests := [''https://example.com''],
                 visited_pages := {|''https://example.com''|}\<rparr>"

definition assets_s2 :: cloner where
  "assets_s2 =
     assets_s1\<lparr>
       requests := [''https://example.com'', ''https://example.com/assets/css/styles.css'',
                    ''https://example.com/assets/img/bg.png''],
       files := [''output/images/img_assets_img_bg.png'' \<mapsto> Bytes ''PNG'',
                 ''output/css/style_assets_css_styles.css'' \<mapsto> Text assets_css],
       downloaded_images := {|''https://example.com/assets/img/bg.png''|},
       all_css_rules := [(''https://example.com/assets/css/styles.css'', [assets_css])],
       downloaded_css := {|''https://example.com/assets/css/styles.css''|}\<rparr>"

definition assets_done :: cloner where
  "assets_done =
     assets_s2\<lparr>files := (files assets_s2)(''output/html/page_index.html'' \<mapsto> Text [])\<rparr>"

lemma normalize_assets:
  "normalize_url env self ''assets/css/styles.css'' (Some ''https://example.com'')
     = Inr ''https://example.com/assets/css/styles.css''"
  "normalize_url env self ''../img/bg.png'' (Some ''https://example.com/assets/css/styles.css'')
     = Inr ''https://example.com/assets/img/bg.png''"
  "normalize_url env self ''../img/bg.png'' (Some ''https://example.com'')
     = Inr ''https://example.com/img/bg.png''"
  by (simp_all add: normalize_url_def url_eval)

lemma filename_assets:
  "get_filename_from_url env ''https://example.com/assets/css/styles.css'' ''style_''
     = Inr ''style_assets_css_styles.css''"
  "get_filename_from_url env ''https://example.com/assets/img/bg.png'' ''img_''
     = Inr ''img_assets_img_bg.png''"
  "get_filename_from_url env ''https://example.com'' ''page_'' = Inr ''page_index.html''"
  by (simp_all add: get_filename_from_url_def url_eval)

lemma assets_is_image:
  "any_in image_exts (lower ''https://example.com/assets/img/bg.png'')"
  by (simp add: any_in_def image_exts_def lower_def lower_char_def is_upper_def)

lemma assets_env_simps:
  "can_write assets_env file" "prettify assets_env soup = []"
  "http_get assets_env n ''https://example.com''
     = Some \<lparr>resp_content = ''page'', resp_text = ''page''\<rparr>"
  "http_get assets_env n ''https://example.com/assets/css/styles.css''
     = Some \<lparr>resp_content = css_text, resp_text = css_text\<rparr>"
  "http_get assets_env n ''https://example.com/assets/img/bg.png''
     = Some \<lparr>resp_content = ''PNG'', resp_text = ''PNG''\<rparr>"
  "http_get assets_env n ''https://example.com/img/bg.png'' = None"
  "html_parser assets_env ''page'' = [assets_link]"
  by (simp_all add: assets_env_def example_env_def)

lemma assets_link_kind:
  "is_stylesheet_link assets_link" "\<not> is_style_tag assets_link"
  "\<not> is_img assets_link'" "\<not> has_style assets_link'" "\<not> is_script_src assets_link'"
  "\<not> is_icon_link assets_link'"
  "get_attr ''href'' assets_link = Some ''assets/css/styles.css''"
  by (simp_all add: is_stylesheet_link_def is_style_tag_def is_img_def has_style_def
      is_script_src_def is_icon_link_def get_attr_def set_attr_def
      assets_link_def assets_link'_def lower_def lower_char_def is_upper_def)

theorem nested_image_is_saved_witness:
  "normalize_url assets_env example_cloner ''../img/bg.png'' (Some ''https://example.com'')
     = Inr ''https://example.com/img/bg.png''
   \<and> (\<forall>n. http_get assets_env n ''https://example.com/img/bg.png'' = None)
   \<and> scrape_page assets_env ''https://example.com'' True example_cloner
       = (Some [set_attr ''href'' ''../css/style_assets_css_styles.css'' assets_link],
          assets_done)
   \<and> requests assets_done
       = [''https://example.com'', ''https://example.com/assets/css/styles.css'',
          ''https://example.com/assets/img/bg.png'']
   \<and> files assets_done ''output/images/img_assets_img_bg.png'' = Some (Bytes ''PNG'')
   \<and> files assets_done ''output/css/style_assets_css_styles.css''
       = Some (Text ''body { background: url(../images/img_assets_img_bg.png); }'')"
proof -
  note inst = nested_image_is_saved
    [where env = assets_env and st = assets_s1 and url = "''https://example.com''"
       and link = assets_link and href = "''assets/css/styles.css''"
       and css_url = "''https://example.com/assets/css/styles.css''"
       and resp = "\<lparr>resp_content = css_text, resp_text = css_text\<rparr>"
       and css_name = "''style_assets_css_styles.css''"
       and pre = "''body { background: ''" and ?g0.0 = "''url(../img/bg.png)''"
       and ref = "''../img/bg.png''" and post = "''; }''"
       and img_url = "''https://example.com/assets/img/bg.png''"
       and img = "\<lparr>resp_content = ''PNG'', resp_text = ''PNG''\<rparr>"
       and img_name = "''img_assets_img_bg.png''"]
  have toks: "css_tokens css_text
      = map Lit ''body { background: ''
        @ UrlMatch ''url(../img/bg.png)'' ''../img/bg.png'' # map Lit ''; }''"
    using tokens_css_text by simp
  have link: "css_link_body assets_env ''https://example.com'' assets_link assets_s1
      = (Inr assets_link', assets_s2)"
    using inst
    by (simp add: assets_link_kind normalize_assets filename_assets assets_is_image
        assets_env_simps toks assets_s1_def assets_s2_def assets_css_def assets_link'_def
        example_cloner_def path_join_def suffix_to_prefix)
  have dr: "download_resources assets_env ''https://example.com'' [assets_link] assets_s1
      = (Inr [assets_link'], assets_s2)"
    by (simp add: download_resources_def assets_link_kind link)
  have save: "save_html_file assets_env ''https://example.com'' [assets_link'] assets_s2
      = (Some [assets_link'], assets_done)"
    by (simp add: save_html_file_def filename_assets assets_env_simps assets_s2_def
        assets_s1_def assets_done_def path_join_def suffix_to_prefix)
  have fresh: "''https://example.com'' |\<notin>| visited_pages example_cloner"
    by simp
  have page: "scrape_page assets_env ''https://example.com'' True example_cloner
      = (Some [assets_link'], assets_done)"
    unfolding scrape_page_fetched [OF fresh assets_env_simps(3)]
    by (simp add: assets_env_simps(7) assets_link_kind assets_s1_def [symmetric] dr save)
  show ?thesis
    unfolding page
    by (simp add: normalize_assets assets_env_simps assets_link'_def assets_done_def
        assets_s2_def assets_s1_def assets_css_def example_cloner_def)
qed

end
